theory Spec2Isabelle
  imports Main "HOL-Library.Word" "HOL-Library.Signed_Division"
begin

section \<open>A pool of DNS resolvers (resolvers.go)\<close>

text \<open>
  The pool, its endpoints and the requests in flight are Go structs behind pointers that
  several goroutines share. The embedding keeps one \<open>world\<close>: the pool struct, a store of
  resolver structs, a store of DNS messages, the result channels and the cancellation
  state of the callers' contexts. Every source function is a function on the world. What
  the network, the clock and the scheduler decide (a write succeeds, a message arrives,
  which ready case a \<open>select\<close> takes) is an argument of the function. A function body runs
  as one atomic step; the mutex of the pool is therefore not modelled.

  Go's \<open>int\<close>, \<open>time.Time\<close> and \<open>time.Duration\<close> are \<open>int\<close> here (nanoseconds); no
  statement below depends on 64-bit overflow. Division of durations truncates towards
  zero, as Go's does (\<open>sdiv\<close>).

  A queue of the queue library (github.com/caffix/queue) is a list: \<open>Append\<close> adds at the
  end, \<open>Next\<close> takes the first element, \<open>Signal\<close> is ready when the queue is not empty. A
  send on a channel appends to the sequence of values sent on it; that a sender waits
  for room in the channel is not modelled.
\<close>

subsection \<open>Data\<close>

type_synonym msg_ptr = nat
type_synonym chan_id = nat
type_synonym ctx_id = nat
type_synonym res_id = nat

text \<open>A panic of the Go runtime ends the call; it is the left summand of a result.\<close>

datatype panic = IndexOutOfRange | DivideByZero | CloseOfClosedChannel

text \<open>The fields of \<open>dns.Question\<close> and \<open>dns.Msg\<close> (github.com/miekg/dns) that the code
  reads or writes. A \<open>*dns.Msg\<close> is \<open>msg_ptr option\<close>: \<open>None\<close> is \<open>nil\<close>.\<close>

record dns_Question =
  QName :: string
  QQtype :: "16 word"

record dns_Msg =
  MsgId :: "16 word"
  Rcode :: int
  Truncated :: bool
  Question :: "dns_Question list"
  Answer :: "string list"

text \<open>The \<open>request\<close> struct is declared outside resolvers.go; its fields are the ones
  \<open>Query\<close> assigns. \<open>Query\<close> is the only place that fills one in, after its \<open>nil\<close> check,
  so the message of a request is a pointer that is not \<open>nil\<close>.\<close>

record request =
  Ctx :: ctx_id
  ID :: "16 word"
  Name :: string
  Qtype :: "16 word"
  Msg :: msg_ptr
  Result :: chan_id

text \<open>Modelled from the spec: the exchange table \<open>xchgMgr\<close> is not in resolvers.go. The spec
  describes a mapping from the key (transaction id, query name) to the request and a
  deadline, with at most one entry per key. An entry that was added and not yet stamped
  has no deadline.\<close>

type_synonym xchg_key = "16 word \<times> string"

record xchg_entry =
  e_req :: request
  e_deadline :: "int option"

record xchgMgr =
  xm_timeout :: int
  entries :: "(xchg_key \<times> xchg_entry) list"

text \<open>A \<open>dns.Conn\<close>: the messages handed to \<open>WriteMsg\<close>, in order, and whether the
  connection was closed.\<close>

record dns_Conn =
  written :: "msg_ptr list"
  conn_closed :: bool

text \<open>The \<open>resolver\<close> struct. \<open>res_done\<close> says that the channel \<open>done\<close> is closed;
  \<open>next_time\<close> is the field \<open>next\<close>, \<open>inc_dur\<close> the field \<open>inc\<close>. Modelled from the spec:
  \<open>stats\<close> are cumulative outcome counters, kept here as the result codes collected.\<close>

record resolver =
  res_done :: bool
  xchgQueue :: "request list"
  xchgs :: xchgMgr
  address :: string
  res_qps :: int
  inc_dur :: int
  next_time :: int
  conn :: dns_Conn
  stats :: "int list"

text \<open>The \<open>Resolvers\<close> struct. \<open>done_closed\<close> says that the channel \<open>done\<close> is closed. The
  selector \<open>pool\<close> is the list of resolvers added (modelled from the spec: the selector
  is declared outside resolvers.go); \<open>rate\<close> is the limiter's rate when one is
  set. Logger, wildcards and threshold options play no part in the functions below.\<close>

record Resolvers =
  done_closed :: bool
  pool :: "res_id list"
  rmap :: "string set"
  queue :: "request list"
  qps :: int
  maxSet :: bool
  rate :: "int option"
  detector :: "res_id option"
  timeout :: int

text \<open>The shared memory. \<open>chans c\<close> is the sequence of values sent on channel \<open>c\<close> so far;
  \<open>tcp_tasks\<close> are the goroutines started by \<open>go r.tcpExchange(req)\<close> that have not run
  yet.\<close>

record world =
  R :: Resolvers
  res_store :: "res_id \<Rightarrow> resolver"
  next_res :: res_id
  heap :: "msg_ptr \<Rightarrow> dns_Msg"
  chans :: "chan_id \<Rightarrow> msg_ptr option list"
  next_chan :: chan_id
  canceled :: "ctx_id \<Rightarrow> bool"
  tcp_tasks :: "(res_id \<times> request) list"

subsection \<open>Constants and helpers that resolvers.go uses\<close>

definition Millisecond :: int where
  "Millisecond = 1000000"

definition Second :: int where
  "Second = 1000000000"

text \<open>Modelled from the spec: \<open>DefaultTimeout\<close> and \<open>RcodeNoResponse\<close> are declared outside
  resolvers.go. The spec speaks of a global timeout default and of a distinguished
  no-response result code; no statement below depends on the numbers chosen.\<close>

definition DefaultTimeout :: int where
  "DefaultTimeout = 2 * Second"

definition RcodeNoResponse :: int where
  "RcodeNoResponse = 50"

text \<open>Modelled from the spec: \<open>RemoveLastDot\<close> is declared outside resolvers.go; the spec
  says that a request holds the query name without the trailing root label.\<close>

definition RemoveLastDot :: "string \<Rightarrow> string" where
  "RemoveLastDot name = (if name \<noteq> [] \<and> last name = CHR ''.'' then butlast name else name)"

text \<open>\<open>net.JoinHostPort\<close>: a host that holds a colon is put in brackets.\<close>

definition JoinHostPort :: "string \<Rightarrow> string \<Rightarrow> string" where
  "JoinHostPort host port =
     (if CHR '':'' \<in> set host then ''['' @ host @ '']:'' @ port else host @ '':'' @ port)"

text \<open>A send on a channel, and \<open>make(chan *dns.Msg, 1)\<close>.\<close>

definition chan_send :: "chan_id \<Rightarrow> msg_ptr option \<Rightarrow> world \<Rightarrow> world" where
  "chan_send ch v w = w\<lparr>chans := (chans w)(ch := chans w ch @ [v])\<rparr>"

definition make_chan :: "world \<Rightarrow> chan_id \<times> world" where
  "make_chan w = (next_chan w, w\<lparr>chans := (chans w)(next_chan w := []), next_chan := Suc (next_chan w)\<rparr>)"

definition set_Rcode :: "msg_ptr \<Rightarrow> int \<Rightarrow> world \<Rightarrow> world" where
  "set_Rcode p c w = w\<lparr>heap := (heap w)(p := (heap w p)\<lparr>Rcode := c\<rparr>)\<rparr>"

text \<open>Modelled from the spec: the methods of \<open>request\<close> are declared outside resolvers.go.
  A no-response outcome returns the original query message with the no-response result
  code on the result channel (as \<open>Query\<close> does inline). \<open>release\<close> hands the struct back to
  the reuse pool, which the spec calls a performance optimisation: it changes nothing
  here.\<close>

definition errNoResponse :: "request \<Rightarrow> world \<Rightarrow> world" where
  "errNoResponse req w = chan_send (Result req) (Some (Msg req)) (set_Rcode (Msg req) RcodeNoResponse w)"

definition release :: "request \<Rightarrow> world \<Rightarrow> world" where
  "release req w = w"

text \<open>An update of one resolver struct and of the pool struct.\<close>

definition upd_res :: "res_id \<Rightarrow> (resolver \<Rightarrow> resolver) \<Rightarrow> world \<Rightarrow> world" where
  "upd_res i f w = w\<lparr>res_store := (res_store w)(i := f (res_store w i))\<rparr>"

definition upd_R :: "(Resolvers \<Rightarrow> Resolvers) \<Rightarrow> world \<Rightarrow> world" where
  "upd_R f w = w\<lparr>R := f (R w)\<rparr>"

text \<open>Modelled from the spec: \<open>collectStats\<close> is declared outside resolvers.go; it updates
  the endpoint's outcome counters with the result code of the message.\<close>

definition collectStats :: "res_id \<Rightarrow> msg_ptr \<Rightarrow> world \<Rightarrow> world" where
  "collectStats i m w = upd_res i (\<lambda>r. r\<lparr>stats := stats r @ [Rcode (heap w m)]\<rparr>) w"

subsection \<open>The exchange table\<close>

text \<open>Modelled from the spec: the methods of \<open>xchgMgr\<close>. The key is the pair of the
  transaction id and the query name without its trailing root label: the name of a
  request has lost it already, the name of a question read from the wire still ends in
  it, and both give the same key. Insertion fails when the key is still present and
  never overwrites; an entry is stamped with the deadline \<open>now + timeout\<close>; an entry is
  expired when the time is past its deadline.\<close>

definition xchgKey :: "16 word \<Rightarrow> string \<Rightarrow> xchg_key" where
  "xchgKey i name = (i, RemoveLastDot name)"

definition xchgs_add :: "request \<Rightarrow> xchgMgr \<Rightarrow> xchgMgr option" where
  "xchgs_add req t =
     (case map_of (entries t) (xchgKey (ID req) (Name req)) of
        Some e \<Rightarrow> None
      | None \<Rightarrow> Some (t\<lparr>entries := entries t @
                   [(xchgKey (ID req) (Name req), \<lparr>e_req = req, e_deadline = None\<rparr>)]\<rparr>))"

definition xchgs_updateTimestamp :: "16 word \<Rightarrow> string \<Rightarrow> int \<Rightarrow> xchgMgr \<Rightarrow> xchgMgr" where
  "xchgs_updateTimestamp i name now t =
     t\<lparr>entries := map (\<lambda>(k, e). if k = xchgKey i name
                                 then (k, e\<lparr>e_deadline := Some (now + xm_timeout t)\<rparr>)
                                 else (k, e)) (entries t)\<rparr>"

definition xchgs_remove :: "16 word \<Rightarrow> string \<Rightarrow> xchgMgr \<Rightarrow> request option \<times> xchgMgr" where
  "xchgs_remove i name t =
     (case map_of (entries t) (xchgKey i name) of
        None \<Rightarrow> (None, t)
      | Some e \<Rightarrow> (Some (e_req e),
                   t\<lparr>entries := filter (\<lambda>(k, e). k \<noteq> xchgKey i name) (entries t)\<rparr>))"

definition expired :: "int \<Rightarrow> xchg_entry \<Rightarrow> bool" where
  "expired now e = (case e_deadline e of None \<Rightarrow> False | Some d \<Rightarrow> d < now)"

definition xchgs_removeExpired :: "int \<Rightarrow> xchgMgr \<Rightarrow> request list \<times> xchgMgr" where
  "xchgs_removeExpired now t =
     (map (\<lambda>(k, e). e_req e) (filter (\<lambda>(k, e). expired now e) (entries t)),
      t\<lparr>entries := filter (\<lambda>(k, e). \<not> expired now e) (entries t)\<rparr>)"

definition xchgs_removeAll :: "xchgMgr \<Rightarrow> request list \<times> xchgMgr" where
  "xchgs_removeAll t = (map (\<lambda>(k, e). e_req e) (entries t), t\<lparr>entries := []\<rparr>)"

definition xchgs_setTimeout :: "int \<Rightarrow> xchgMgr \<Rightarrow> xchgMgr" where
  "xchgs_setTimeout d t = t\<lparr>xm_timeout := d\<rparr>"

definition newXchgMgr :: "int \<Rightarrow> xchgMgr" where
  "newXchgMgr d = \<lparr>xm_timeout = d, entries = []\<rparr>"

subsection \<open>The selector\<close>

text \<open>Modelled from the spec: the selector's methods are declared outside resolvers.go.
  \<open>Add\<close> appends, \<open>All\<close> is the sequence of endpoints, \<open>Close\<close> releases it, and \<open>Pick\<close>
  returns one of the endpoints that are not stopped, or none when the pool is empty or
  all endpoints are stopped; \<open>choice\<close> is the random number drawn.\<close>

definition AddResolver :: "res_id \<Rightarrow> Resolvers \<Rightarrow> Resolvers" where
  "AddResolver res r = r\<lparr>pool := pool r @ [res]\<rparr>"

definition AllResolvers :: "Resolvers \<Rightarrow> res_id list" where
  "AllResolvers r = pool r"

definition pool_Close :: "Resolvers \<Rightarrow> Resolvers" where
  "pool_Close r = r\<lparr>pool := []\<rparr>"

definition GetResolver :: "nat \<Rightarrow> world \<Rightarrow> res_id option" where
  "GetResolver choice w =
     (let act = filter (\<lambda>i. \<not> res_done (res_store w i)) (pool (R w))
      in if act = [] then None else Some (act ! (choice mod length act)))"

text \<open>Modelled from the spec: \<open>getDetectionResolver\<close> is declared outside resolvers.go; it
  reads the field \<open>detector\<close>. \<open>all_with_detector\<close> is the slice \<open>all\<close> that \<open>Stop\<close>,
  \<open>checkAllQueues\<close> and \<open>updateResolverTimeouts\<close> build.\<close>

definition getDetectionResolver :: "Resolvers \<Rightarrow> res_id option" where
  "getDetectionResolver r = detector r"

definition all_with_detector :: "Resolvers \<Rightarrow> res_id list" where
  "all_with_detector r =
     AllResolvers r @ (case getDetectionResolver r of None \<Rightarrow> [] | Some d \<Rightarrow> [d])"

subsection \<open>The pool: construction and administration\<close>

definition NewResolvers :: Resolvers where
  "NewResolvers = \<lparr>done_closed = False, pool = [], rmap = {}, queue = [], qps = 0,
     maxSet = False, rate = None, detector = None, timeout = DefaultTimeout\<rparr>"

definition Len :: "Resolvers \<Rightarrow> nat" where
  "Len r = length (pool r)"

definition updateResolverTimeouts :: "world \<Rightarrow> world" where
  "updateResolverTimeouts w =
     fold (\<lambda>res w'. if res_done (res_store w' res) then w'
                     else upd_res res (\<lambda>r. r\<lparr>xchgs := xchgs_setTimeout (timeout (R w)) (xchgs r)\<rparr>) w')
          (all_with_detector (R w)) w"

definition SetTimeout :: "int \<Rightarrow> world \<Rightarrow> world" where
  "SetTimeout d w = updateResolverTimeouts (upd_R (\<lambda>r. r\<lparr>timeout := d\<rparr>) w)"

definition QPS :: "Resolvers \<Rightarrow> int" where
  "QPS r = qps r"

definition SetMaxQPS :: "int \<Rightarrow> Resolvers \<Rightarrow> Resolvers" where
  "SetMaxQPS q r =
     (if q > 0 then r\<lparr>qps := q, maxSet := True, rate := Some q\<rparr>
      else r\<lparr>qps := q, maxSet := False, rate := None\<rparr>)"

text \<open>What the network and the clock answer while a resolver is set up: whether
  \<open>net.SplitHostPort\<close> accepts the address, whether \<open>Dial\<close> succeeds, and \<open>time.Now()\<close>.\<close>

record netenv =
  SplitHostPort_ok :: "string \<Rightarrow> bool"
  Dial_ok :: "string \<Rightarrow> bool"
  Now :: int

text \<open>\<open>initializeResolver\<close>: \<open>None\<close> is the \<open>nil\<close> it returns when the dial fails. The
  division \<open>time.Second / time.Duration(qps)\<close> panics on zero. The goroutines
  \<open>responses\<close> and \<open>timeouts\<close> it starts are the step functions of the next subsections.\<close>

definition initializeResolver :: "netenv \<Rightarrow> string \<Rightarrow> int \<Rightarrow> world \<Rightarrow> panic + (res_id option \<times> world)" where
  "initializeResolver e addr0 q w =
     (let addr = (if SplitHostPort_ok e addr0 then addr0 else JoinHostPort addr0 ''53'')
      in if Dial_ok e addr then
           (if q = 0 then Inl DivideByZero
            else Inr (Some (next_res w),
                      w\<lparr>res_store := (res_store w)(next_res w :=
                           \<lparr>res_done = False, xchgQueue = [], xchgs = newXchgMgr (timeout (R w)),
                            address = addr, res_qps = q, inc_dur = Second sdiv q,
                            next_time = Now e, conn = \<lparr>written = [], conn_closed = False\<rparr>,
                            stats = []\<rparr>),
                        next_res := Suc (next_res w)\<rparr>))
         else Inr (None, w))"

fun AddResolvers_loop :: "netenv \<Rightarrow> int \<Rightarrow> string list \<Rightarrow> world \<Rightarrow> panic + world" where
  "AddResolvers_loop e q [] w = Inr w"
| "AddResolvers_loop e q (addr # addrs) w =
     (if addr \<in> rmap (R w) then AddResolvers_loop e q addrs w
      else (case initializeResolver e addr q w of
              Inl p \<Rightarrow> Inl p
            | Inr (None, w1) \<Rightarrow> AddResolvers_loop e q addrs w1
            | Inr (Some res, w1) \<Rightarrow>
                AddResolvers_loop e q addrs
                  (upd_R (\<lambda>r. (AddResolver res (r\<lparr>rmap := insert addr (rmap r)\<rparr>))
                                 \<lparr>qps := (if \<not> maxSet r then qps r + q else qps r)\<rparr>) w1)))"

text \<open>\<open>AddResolvers\<close>: the error returned is \<open>Some\<close> of its text, \<open>None\<close> is \<open>nil\<close>.\<close>

definition AddResolvers :: "netenv \<Rightarrow> int \<Rightarrow> string list \<Rightarrow> world \<Rightarrow> panic + (string option \<times> world)" where
  "AddResolvers e q addrs w =
     (if q = 0
      then Inr (Some ''failed to provide a maximum number of queries per second greater than zero'', w)
      else (case AddResolvers_loop e q addrs w of
              Inl p \<Rightarrow> Inl p
            | Inr w1 \<Rightarrow> Inr (None, w1)))"

subsection \<open>Stopping\<close>

text \<open>The body of the callback and of the loops that drain: the request is failed with
  no-response and released. \<open>Process\<close> of the queue library hands every element to the
  callback and leaves the queue empty.\<close>

definition fail_request :: "request \<Rightarrow> world \<Rightarrow> world" where
  "fail_request req w = release req (errNoResponse req w)"

text \<open>\<open>close(c)\<close> on a channel whose closed flag is given: closing a channel that is closed
  already panics.\<close>

definition close_chan :: "bool \<Rightarrow> panic + bool" where
  "close_chan closed = (if closed then Inl CloseOfClosedChannel else Inr True)"

text \<open>\<open>resolver.stop\<close>.\<close>

definition resolver_stop :: "res_id \<Rightarrow> world \<Rightarrow> panic + world" where
  "resolver_stop i w =
     (if res_done (res_store w i) then Inr w
      else case close_chan (res_done (res_store w i)) of
        Inl p \<Rightarrow> Inl p
      | Inr d \<Rightarrow>
           (let w1 = upd_res i (\<lambda>r. r\<lparr>res_done := d\<rparr>) w;
                w2 = fold fail_request (xchgQueue (res_store w1 i))
                       (upd_res i (\<lambda>r. r\<lparr>xchgQueue := []\<rparr>) w1);
                (reqs, t) = xchgs_removeAll (xchgs (res_store w2 i));
                w3 = upd_res i (\<lambda>r. r\<lparr>xchgs := t\<rparr>) w2
            in Inr (fold fail_request reqs w3)))"

fun Stop_loop :: "res_id list \<Rightarrow> world \<Rightarrow> panic + world" where
  "Stop_loop [] w = Inr w"
| "Stop_loop (res # rest) w =
     (let w1 = (if \<not> maxSet (R w) then upd_R (\<lambda>r. r\<lparr>qps := qps r - res_qps (res_store w res)\<rparr>) w
                else w)
      in case resolver_stop res w1 of
           Inl p \<Rightarrow> Inl p
         | Inr w2 \<Rightarrow> Stop_loop rest w2)"

definition Stop :: "world \<Rightarrow> panic + world" where
  "Stop w =
     (if done_closed (R w) then Inr w
      else case close_chan (done_closed (R w)) of
        Inl p \<Rightarrow> Inl p
      | Inr d \<Rightarrow>
           (let w1 = upd_R (\<lambda>r. r\<lparr>done_closed := d\<rparr>) w
            in case Stop_loop (all_with_detector (R w1)) w1 of
                 Inl p \<Rightarrow> Inl p
               | Inr w2 \<Rightarrow> Inr (upd_R pool_Close w2)))"

subsection \<open>Submitting queries\<close>

text \<open>\<open>Query\<close>. The \<open>select\<close> takes its default case only when neither \<open>ctx.Done()\<close> nor
  \<open>r.done\<close> is ready; both other cases lead to the same statements. \<open>msg.Question[0]\<close>
  panics on an empty question section.\<close>

definition Query :: "ctx_id \<Rightarrow> msg_ptr option \<Rightarrow> chan_id \<Rightarrow> world \<Rightarrow> panic + world" where
  "Query ctx msg ch w =
     (case msg of
        None \<Rightarrow> Inr (chan_send ch None w)
      | Some p \<Rightarrow>
          if canceled w ctx \<or> done_closed (R w)
          then Inr (chan_send ch (Some p) (set_Rcode p RcodeNoResponse w))
          else (case Question (heap w p) of
                  [] \<Rightarrow> Inl IndexOutOfRange
                | q # qs \<Rightarrow>
                    Inr (upd_R (\<lambda>r. r\<lparr>queue := queue r @
                           [\<lparr>Ctx = ctx, ID = MsgId (heap w p), Name = RemoveLastDot (QName q),
                             Qtype = QQtype q, Msg = p, Result = ch\<rparr>]\<rparr>) w)))"

definition QueryChan :: "ctx_id \<Rightarrow> msg_ptr option \<Rightarrow> world \<Rightarrow> panic + (chan_id \<times> world)" where
  "QueryChan ctx msg w =
     (let (ch, w1) = make_chan w
      in case Query ctx msg ch w1 of
           Inl p \<Rightarrow> Inl p
         | Inr w2 \<Rightarrow> Inr (ch, w2))"

text \<open>The second \<open>select\<close> of \<open>QueryBlocking\<close>, in the world it wakes up in: it blocks
  (\<open>None\<close>) while the context is live and the channel is empty; when both cases are ready
  the runtime picks one, and \<open>pick_ctx\<close> says which. An error is \<open>Some\<close> of its text.\<close>

definition QueryBlocking_select ::
  "ctx_id \<Rightarrow> msg_ptr option \<Rightarrow> chan_id \<Rightarrow> bool \<Rightarrow> world \<Rightarrow> (msg_ptr option \<times> string option) option" where
  "QueryBlocking_select ctx msg ch pick_ctx w =
     (case chans w ch of
        [] \<Rightarrow> (if canceled w ctx then Some (msg, Some ''the context expired'') else None)
      | resp # rest \<Rightarrow>
          if canceled w ctx \<and> pick_ctx then Some (msg, Some ''the context expired'')
          else Some (resp, if resp = None then Some ''query failed'' else None))"

text \<open>\<open>QueryBlocking\<close>. Between the submission and the moment its second \<open>select\<close> fires
  the other goroutines run: \<open>others\<close> is what they do to the world.\<close>

definition QueryBlocking ::
  "ctx_id \<Rightarrow> msg_ptr option \<Rightarrow> (world \<Rightarrow> world) \<Rightarrow> bool \<Rightarrow> world
     \<Rightarrow> panic + (msg_ptr option \<times> string option) option \<times> world" where
  "QueryBlocking ctx msg others pick_ctx w =
     (if canceled w ctx then Inr (Some (msg, Some ''the context expired''), w)
      else (case QueryChan ctx msg w of
              Inl p \<Rightarrow> Inl p
            | Inr (ch, w1) \<Rightarrow>
                Inr (QueryBlocking_select ctx msg ch pick_ctx (others w1), others w1)))"

subsection \<open>Admission\<close>

datatype loop = Continue | Return

definition resolver_query :: "res_id \<Rightarrow> request \<Rightarrow> world \<Rightarrow> world" where
  "resolver_query i req w =
     (if res_done (res_store w i) then fail_request req w
      else upd_res i (\<lambda>r. r\<lparr>xchgQueue := xchgQueue r @ [req]\<rparr>) w)"

text \<open>One iteration of the loop of \<open>enforceMaxQPS\<close>. The \<open>select\<close> blocks (\<open>None\<close>) while
  the pool is running and the ingress queue is empty; when both cases are ready,
  \<open>pick_done\<close> says whether the runtime picks \<open>r.done\<close>. \<open>rate.Take()\<close> only delays.\<close>

definition enforceMaxQPS_iter :: "bool \<Rightarrow> nat \<Rightarrow> world \<Rightarrow> (loop \<times> world) option" where
  "enforceMaxQPS_iter pick_done choice w =
     (if \<not> done_closed (R w) \<and> queue (R w) = [] then None
      else if done_closed (R w) \<and> (pick_done \<or> queue (R w) = []) then Some (Return, w)
      else (case queue (R w) of
              [] \<Rightarrow> Some (Continue, w)
            | req # rest \<Rightarrow>
                (let w1 = upd_R (\<lambda>r. r\<lparr>queue := rest\<rparr>) w
                 in case GetResolver choice w1 of
                      Some res \<Rightarrow> Some (Continue, resolver_query res req w1)
                    | None \<Rightarrow> Some (Continue, fail_request req w1))))"

subsection \<open>The send step\<close>

definition conn_WriteMsg :: "msg_ptr \<Rightarrow> dns_Conn \<Rightarrow> dns_Conn" where
  "conn_WriteMsg p c = c\<lparr>written := written c @ [p]\<rparr>"

text \<open>\<open>writeNextMsg\<close>. \<open>write_ok\<close> says whether \<open>WriteMsg\<close> returns no error; \<open>now_stamp\<close>
  and \<open>now_next\<close> are the clock readings of \<open>updateTimestamp\<close> and of \<open>time.Now()\<close>.\<close>

definition writeNextMsg :: "res_id \<Rightarrow> bool \<Rightarrow> int \<Rightarrow> int \<Rightarrow> world \<Rightarrow> world" where
  "writeNextMsg i write_ok now_stamp now_next w =
     (if res_done (res_store w i) then w
      else (case xchgQueue (res_store w i) of
              [] \<Rightarrow> w
            | req # rest \<Rightarrow>
                (let w1 = upd_res i (\<lambda>r. r\<lparr>xchgQueue := rest\<rparr>) w
                 in if canceled w1 (Ctx req) then fail_request req w1
                    else (let w2 = upd_res i (\<lambda>r. r\<lparr>conn := conn_WriteMsg (Msg req) (conn r)\<rparr>) w1
                          in if write_ok
                             then (case xchgs_add req (xchgs (res_store w2 i)) of
                                     Some t \<Rightarrow>
                                       upd_res i (\<lambda>r. r\<lparr>xchgs := xchgs_updateTimestamp (ID req) (Name req) now_stamp t,
                                                         next_time := now_next + inc_dur r\<rparr>) w2
                                   | None \<Rightarrow> fail_request req w2)
                             else fail_request req w2))))"

text \<open>\<open>checkAllQueues\<close>: \<open>cur\<close> is the clock reading at its start, \<open>io res\<close> what the
  network and the clock answer to the send of resolver \<open>res\<close>.\<close>

fun checkAllQueues_loop ::
  "int \<Rightarrow> (res_id \<Rightarrow> bool \<times> int \<times> int) \<Rightarrow> res_id list \<Rightarrow> bool \<times> world \<Rightarrow> bool \<times> world" where
  "checkAllQueues_loop cur io [] (sent, w) = (sent, w)"
| "checkAllQueues_loop cur io (res # rest) (sent, w) =
     (if res_done (res_store w res) then checkAllQueues_loop cur io rest (sent, w)
      else if next_time (res_store w res) > cur then checkAllQueues_loop cur io rest (sent, w)
      else if xchgQueue (res_store w res) \<noteq> []
      then (case io res of (write_ok, now_stamp, now_next) \<Rightarrow>
              checkAllQueues_loop cur io rest (True, writeNextMsg res write_ok now_stamp now_next w))
      else checkAllQueues_loop cur io rest (sent, w))"

definition checkAllQueues :: "int \<Rightarrow> (res_id \<Rightarrow> bool \<times> int \<times> int) \<Rightarrow> world \<Rightarrow> bool \<times> world" where
  "checkAllQueues cur io w = checkAllQueues_loop cur io (all_with_detector (R w)) (False, w)"

subsection \<open>The receive step and the retry over TCP\<close>

text \<open>One iteration of the loop of \<open>responses\<close>. \<open>err\<close> and \<open>m\<close> are what \<open>ReadMsg\<close>
  returns. When the loop returns, the deferred \<open>Close\<close> of the connection runs.\<close>

definition responses_iter :: "res_id \<Rightarrow> bool \<Rightarrow> msg_ptr option \<Rightarrow> world \<Rightarrow> loop \<times> world" where
  "responses_iter i err m w =
     (if res_done (res_store w i)
      then (Return, upd_res i (\<lambda>r. r\<lparr>conn := (conn r)\<lparr>conn_closed := True\<rparr>\<rparr>) w)
      else (case m of
              None \<Rightarrow> (Continue, w)
            | Some p \<Rightarrow>
                if err then (Continue, w)
                else (case Question (heap w p) of
                        [] \<Rightarrow> (Continue, w)
                      | q # qs \<Rightarrow>
                          (case xchgs_remove (MsgId (heap w p)) (QName q) (xchgs (res_store w i)) of
                             (None, t) \<Rightarrow> (Continue, w)
                           | (Some req, t) \<Rightarrow>
                               (let w1 = upd_res i (\<lambda>r. r\<lparr>xchgs := t\<rparr>) w
                                in if Truncated (heap w p)
                                   then (Continue, w1\<lparr>tcp_tasks := tcp_tasks w1 @ [(i, req)]\<rparr>)
                                   else (Continue,
                                         release req (collectStats i p (chan_send (Result req) (Some p) w1))))))))"

text \<open>\<open>tcpExchange\<close>: \<open>outcome\<close> is the message \<open>client.Exchange\<close> returns, \<open>None\<close> when it
  returns an error.\<close>

definition tcpExchange :: "res_id \<Rightarrow> request \<Rightarrow> msg_ptr option \<Rightarrow> world \<Rightarrow> world" where
  "tcpExchange i req outcome w =
     (case outcome of
        Some m \<Rightarrow> release req (collectStats i m (chan_send (Result req) (Some m) w))
      | None \<Rightarrow> release req (errNoResponse req w))"

text \<open>The scheduler runs the first goroutine that \<open>responses\<close> started and that has not
  run yet.\<close>

definition run_tcp_task :: "msg_ptr option \<Rightarrow> world \<Rightarrow> world" where
  "run_tcp_task outcome w =
     (case tcp_tasks w of
        [] \<Rightarrow> w
      | (i, req) # rest \<Rightarrow> tcpExchange i req outcome (w\<lparr>tcp_tasks := rest\<rparr>))"

subsection \<open>The expiry sweeper\<close>


definition expire_request :: "res_id \<Rightarrow> request \<Rightarrow> world \<Rightarrow> world" where
  "expire_request i req w = release req (collectStats i (Msg req) (errNoResponse req w))"

text \<open>One iteration of the loop of \<open>timeouts\<close>, at a tick of the ticker read at time
  \<open>now\<close>. When \<open>r.done\<close> is ready as well, \<open>pick_done\<close> says whether the runtime picks it.\<close>

definition timeouts_iter :: "res_id \<Rightarrow> bool \<Rightarrow> int \<Rightarrow> world \<Rightarrow> loop \<times> world" where
  "timeouts_iter i pick_done now w =
     (if res_done (res_store w i) \<and> pick_done then (Return, w)
      else (let (reqs, t) = xchgs_removeExpired now (xchgs (res_store w i));
                w1 = upd_res i (\<lambda>r. r\<lparr>xchgs := t\<rparr>) w
            in (Continue, fold (expire_request i) reqs w1)))"

subsection \<open>Notions used in the statements\<close>

text \<open>A request was failed with the no-response outcome: its message was sent on its
  result channel and carries the no-response result code.\<close>

definition delivered_no_response :: "request \<Rightarrow> world \<Rightarrow> bool" where
  "delivered_no_response req w =
     (Some (Msg req) \<in> set (chans w (Result req)) \<and> Rcode (heap w (Msg req)) = RcodeNoResponse)"

text \<open>The requests a resolver holds: in its queue and in its exchange table.\<close>

definition held :: "resolver \<Rightarrow> request list" where
  "held r = xchgQueue r @ map (\<lambda>(k, e). e_req e) (entries (xchgs r))"

text \<open>A resolver after \<open>stop\<close>: one that was stopped before is left as it is.\<close>

definition stopped :: "resolver \<Rightarrow> resolver" where
  "stopped r = (if res_done r then r
                else r\<lparr>res_done := True, xchgQueue := [], xchgs := (xchgs r)\<lparr>entries := []\<rparr>\<rparr>)"

text \<open>What a list of requests, each failed or expired once, adds to channel \<open>c\<close>.\<close>

definition sent_to :: "chan_id \<Rightarrow> request list \<Rightarrow> msg_ptr option list" where
  "sent_to c reqs = map (\<lambda>r. Some (Msg r)) (filter (\<lambda>r. Result r = c) reqs)"

text \<open>The requests \<open>stop\<close> has to fail on a resolver, and on a list of resolvers stopped
  in turn: a resolver that is stopped already, or that comes a second time, adds none.\<close>

definition held_running :: "resolver \<Rightarrow> request list" where
  "held_running r = (if res_done r then [] else held r)"

fun drained :: "res_id list \<Rightarrow> (res_id \<Rightarrow> resolver) \<Rightarrow> request list" where
  "drained [] st = []"
| "drained (i # rs) st = held_running (st i) @ drained rs (st(i := stopped (st i)))"

text \<open>The requests of the entries that are past their deadline at time \<open>now\<close>.\<close>

definition expired_requests :: "int \<Rightarrow> xchgMgr \<Rightarrow> request list" where
  "expired_requests now t = map (\<lambda>(k, e). e_req e) (filter (\<lambda>(k, e). expired now e) (entries t))"

text \<open>A resolver whose exchange table lost the entry of a key.\<close>

definition removed_from :: "xchg_key \<Rightarrow> resolver \<Rightarrow> resolver" where
  "removed_from key r = r\<lparr>xchgs := (xchgs r)\<lparr>entries := filter (\<lambda>(k, e). k \<noteq> key) (entries (xchgs r))\<rparr>\<rparr>"


text \<open>The caller's context is canceled.\<close>

definition cancel_ctx :: "ctx_id \<Rightarrow> world \<Rightarrow> world" where
  "cancel_ctx c w = w\<lparr>canceled := (canceled w)(c := True)\<rparr>"

subsection \<open>Runs of the pool\<close>

text \<open>The number of requests of a list that answer on channel \<open>c\<close>; the requests for
  channel \<open>c\<close> that the pool holds: in the ingress queue, in the queue and the table of a
  resolver that was created, and in a retry task; and the queries for channel \<open>c\<close>
  accounted for: delivered or held.\<close>

definition on_chan :: "chan_id \<Rightarrow> request list \<Rightarrow> nat" where
  "on_chan c reqs = length (filter (\<lambda>r. Result r = c) reqs)"

definition in_flight :: "chan_id \<Rightarrow> world \<Rightarrow> nat" where
  "in_flight c w = on_chan c (queue (R w))
     + (\<Sum>i<next_res w. on_chan c (held (res_store w i)))
     + on_chan c (map snd (tcp_tasks w))"

definition accounted :: "chan_id \<Rightarrow> world \<Rightarrow> nat" where
  "accounted c w = length (chans w c) + in_flight c w"

text \<open>\<open>in_flight\<close> without what resolver \<open>i\<close> holds.\<close>

definition others_flight :: "chan_id \<Rightarrow> res_id \<Rightarrow> world \<Rightarrow> nat" where
  "others_flight c i w = on_chan c (queue (R w))
     + (\<Sum>j\<in>{..<next_res w} - {i}. on_chan c (held (res_store w j)))
     + on_chan c (map snd (tcp_tasks w))"

text \<open>A well-formed world: the resolvers of the pool, the detector and the resolvers of
  the retry tasks were created, and the keys of every exchange table are distinct.\<close>

definition known_resolvers :: "world \<Rightarrow> bool" where
  "known_resolvers w = ((\<forall>i \<in> set (all_with_detector (R w)). i < next_res w)
     \<and> (\<forall>(i, req) \<in> set (tcp_tasks w). i < next_res w))"

definition tables_ok :: "world \<Rightarrow> bool" where
  "tables_ok w = (\<forall>i. distinct (map fst (entries (xchgs (res_store w i)))))"

definition well_formed :: "world \<Rightarrow> bool" where
  "well_formed w = (known_resolvers w \<and> tables_ok w)"

text \<open>The goroutines of the pool and its environment.\<close>

datatype actor = Admission | Dispatch | Receiver | Retry | Sweeper | Admin | Caller

text \<open>A step of the pool other than a submission, as far as resolvers.go defines it: an
  iteration of one of its loops, a retry task, an administrative call, or a caller
  canceling a context. The send, receive and sweep steps exist for the resolvers that
  were created.\<close>

inductive internal_step :: "actor \<Rightarrow> world \<Rightarrow> world \<Rightarrow> bool" where
  admit: "enforceMaxQPS_iter pick_done choice w = Some (l, w') \<Longrightarrow> internal_step Admission w w'"
| send: "i < next_res w \<Longrightarrow>
         internal_step Dispatch w (writeNextMsg i write_ok now_stamp now_next w)"
| receive: "i < next_res w \<Longrightarrow> internal_step Receiver w (snd (responses_iter i err m w))"
| retry: "internal_step Retry w (run_tcp_task outcome w)"
| sweep: "i < next_res w \<Longrightarrow> internal_step Sweeper w (snd (timeouts_iter i pick_done now w))"
| stop: "Stop w = Inr w' \<Longrightarrow> internal_step Admin w w'"
| add: "AddResolvers env q addrs w = Inr (e, w') \<Longrightarrow> internal_step Admin w w'"
| set_timeout: "internal_step Admin w (SetTimeout d w)"
| set_max_qps: "internal_step Admin w (upd_R (SetMaxQPS q) w)"
| cancel: "internal_step Caller w (cancel_ctx ctx w)"

text \<open>A run of the pool in which the goroutines in \<open>live\<close> take steps and callers submit
  with \<open>Query\<close>; the list holds the channels of the submissions, the latest first.\<close>

inductive run :: "actor set \<Rightarrow> world \<Rightarrow> chan_id list \<Rightarrow> world \<Rightarrow> bool" where
  start: "run live w [] w"
| internal: "run live w subs w1 \<Longrightarrow> a \<in> live \<Longrightarrow> internal_step a w1 w2 \<Longrightarrow> run live w subs w2"
| submit: "run live w subs w1 \<Longrightarrow> Query ctx msg ch w1 = Inr w2 \<Longrightarrow> run live w (ch # subs) w2"



text \<open>Requests only move forward: from the ingress queue to the queue of a resolver, from
  there to its table, and out of the table. \<open>forward w w'\<close> says that \<open>w'\<close> differs from \<open>w\<close>
  by such moves only: no queue holds a request that was not waiting before, an entry of
  a table was there before or was made from a request of the resolver's queue, a
  resolver created in between holds nothing yet, a resolver stopped in between has
  an empty table, and no channel lost a value.\<close>

definition forward :: "world \<Rightarrow> world \<Rightarrow> bool" where
  "forward w w' =
     (next_res w \<le> next_res w'
      \<and> set (queue (R w')) \<subseteq> set (queue (R w))
      \<and> (\<forall>j<next_res w. set (xchgQueue (res_store w' j))
             \<subseteq> set (xchgQueue (res_store w j)) \<union> set (queue (R w)))
      \<and> (\<forall>j<next_res w. \<forall>x \<in> set (entries (xchgs (res_store w' j))).
             x \<in> set (entries (xchgs (res_store w j)))
           \<or> e_req (snd x) \<in> set (xchgQueue (res_store w j)))
      \<and> (\<forall>j. next_res w \<le> j \<and> j < next_res w' \<longrightarrow>
             xchgQueue (res_store w' j) = [] \<and> entries (xchgs (res_store w' j)) = [])
      \<and> (\<forall>j<next_res w. res_done (res_store w' j) \<longrightarrow>
             res_done (res_store w j) \<or> entries (xchgs (res_store w' j)) = [])
      \<and> (\<forall>c. length (chans w c) \<le> length (chans w' c)))"



subsection \<open>Concrete worlds\<close>

text \<open>The zero value of \<open>dns.Msg\<close>, and what is called an empty response below: a message
  without question and answer records.\<close>

definition empty_Msg :: dns_Msg where
  "empty_Msg = \<lparr>MsgId = 0, Rcode = 0, Truncated = False, Question = [], Answer = []\<rparr>"

definition msg_empty :: "dns_Msg \<Rightarrow> bool" where
  "msg_empty m = (Question m = [] \<and> Answer m = [])"

definition zero_resolver :: resolver where
  "zero_resolver = \<lparr>res_done = False, xchgQueue = [], xchgs = newXchgMgr 0, address = [],
     res_qps = 0, inc_dur = 0, next_time = 0, conn = \<lparr>written = [], conn_closed = False\<rparr>,
     stats = []\<rparr>"

text \<open>The world right after \<open>NewResolvers()\<close>: no resolver, no channel, every message
  zero, every context live.\<close>

definition world0 :: world where
  "world0 = \<lparr>R = NewResolvers, res_store = (\<lambda>i. zero_resolver), next_res = 0,
     heap = (\<lambda>p. empty_Msg), chans = (\<lambda>c. []), next_chan = 0, canceled = (\<lambda>c. False),
     tcp_tasks = []\<rparr>"

text \<open>The same world with the pool shut down.\<close>

definition world_stopped :: world where
  "world_stopped = world0\<lparr>R := NewResolvers\<lparr>done_closed := True\<rparr>\<rparr>"

definition world_after_stopped_query :: world where
  "world_after_stopped_query =
     chan_send 0 (Some 0) (set_Rcode 0 RcodeNoResponse (snd (make_chan world_stopped)))"

text \<open>A network in which no address carries a port and every dial succeeds.\<close>

definition env_ok :: netenv where
  "env_ok = \<lparr>SplitHostPort_ok = (\<lambda>a. False), Dial_ok = (\<lambda>a. True), Now = 0\<rparr>"

text \<open>A world in which every message is a query for \<open>example.com.\<close> with id 7, and the
  request \<open>Query\<close> builds from such a message for context 0 and channel 0.\<close>

definition world_one_question :: world where
  "world_one_question = world0\<lparr>heap := (\<lambda>p. empty_Msg\<lparr>MsgId := 7,
     Question := [\<lparr>QName = ''example.com.'', QQtype = 1\<rparr>]\<rparr>)\<rparr>"

definition request0 :: request where
  "request0 = \<lparr>Ctx = 0, ID = 7, Name = ''example.com'', Qtype = 1, Msg = 0, Result = 0\<rparr>"

text \<open>The world after that query was submitted with \<open>QueryChan\<close>, and after \<open>Stop\<close> was
  called next.\<close>

definition world_queued :: world where
  "world_queued = upd_R (\<lambda>r. r\<lparr>queue := [request0]\<rparr>) (snd (make_chan world_one_question))"

definition world_queued_stopped :: world where
  "world_queued_stopped = upd_R (\<lambda>r. r\<lparr>done_closed := True\<rparr>) world_queued"

text \<open>A pool with one resolver that holds \<open>request0\<close> in its queue and \<open>request1\<close> in its
  exchange table, and the same world with two answers to \<open>request1\<close> in memory: message 2,
  and message 3, which is marked truncated.\<close>

definition request1 :: request where
  "request1 = \<lparr>Ctx = 0, ID = 8, Name = ''example.org'', Qtype = 1, Msg = 1, Result = 1\<rparr>"

definition busy_resolver :: resolver where
  "busy_resolver = zero_resolver\<lparr>xchgQueue := [request0],
     xchgs := \<lparr>xm_timeout = 2 * Second,
               entries = [((8, ''example.org''), \<lparr>e_req = request1, e_deadline = Some 5\<rparr>)]\<rparr>,
     res_qps := 10, inc_dur := 100 * Millisecond\<rparr>"

definition world_busy :: world where
  "world_busy = world0\<lparr>R := NewResolvers\<lparr>pool := [0], rmap := {''8.8.8.8''}, qps := 10\<rparr>,
     res_store := (\<lambda>i. if i = 0 then busy_resolver else zero_resolver), next_res := 1,
     next_chan := 2\<rparr>"

definition entry1 :: xchg_entry where
  "entry1 = \<lparr>e_req = request1, e_deadline = Some 5\<rparr>"

definition question1 :: dns_Question where
  "question1 = \<lparr>QName = ''example.org.'', QQtype = 1\<rparr>"

definition resp_msg :: dns_Msg where
  "resp_msg = \<lparr>MsgId = 8, Rcode = 0, Truncated = False, Question = [question1],
     Answer = [''93.184.216.34'']\<rparr>"

definition world_resp :: world where
  "world_resp = world_busy\<lparr>heap := (\<lambda>p. if p = 2 then resp_msg
      else if p = 3 then resp_msg\<lparr>Truncated := True\<rparr> else empty_Msg)\<rparr>"

text \<open>A pool on which a query is submitted and sent: the world after
  \<open>AddResolvers(10, "8.8.8.8")\<close>, every message being a query for \<open>example.com.\<close> with id
  7; after \<open>QueryChan\<close> with message 0; after the admission loop handed the request to the
  resolver; and after the send step stamped at time 3. \<open>question0\<close> is the question of
  every message there, with the name as it is on the wire.\<close>

definition fresh_resolver :: resolver where
  "fresh_resolver = zero_resolver\<lparr>xchgs := newXchgMgr DefaultTimeout, address := ''8.8.8.8:53'',
     res_qps := 10, inc_dur := 100 * Millisecond\<rparr>"

definition world_pool :: world where
  "world_pool = upd_R (\<lambda>r. r\<lparr>pool := [0], rmap := {''8.8.8.8''}, qps := 10\<rparr>)
     (world_one_question\<lparr>res_store := (res_store world_one_question)(0 := fresh_resolver),
        next_res := 1\<rparr>)"

definition world_submitted :: world where
  "world_submitted = upd_R (\<lambda>r. r\<lparr>queue := [request0]\<rparr>) (snd (make_chan world_pool))"

definition world_admitted :: world where
  "world_admitted = upd_res 0 (\<lambda>r. r\<lparr>xchgQueue := [request0]\<rparr>)
     (upd_R (\<lambda>r. r\<lparr>queue := []\<rparr>) world_submitted)"

definition entry0 :: xchg_entry where
  "entry0 = \<lparr>e_req = request0, e_deadline = Some (3 + DefaultTimeout)\<rparr>"

definition world_sent :: world where
  "world_sent = upd_res 0 (\<lambda>r. r\<lparr>xchgQueue := [], conn := \<lparr>written = [0], conn_closed = False\<rparr>,
       xchgs := \<lparr>xm_timeout = DefaultTimeout, entries = [((7, ''example.com''), entry0)]\<rparr>,
       next_time := 4 + 100 * Millisecond\<rparr>) world_admitted"

definition question0 :: dns_Question where
  "question0 = \<lparr>QName = ''example.com.'', QQtype = 1\<rparr>"





section \<open>Properties\<close>

subsection \<open>Frame lemmas\<close>

lemma upd_res_simps:
  "R (upd_res i f w) = R w"
  "heap (upd_res i f w) = heap w"
  "chans (upd_res i f w) = chans w"
  "canceled (upd_res i f w) = canceled w"
  "tcp_tasks (upd_res i f w) = tcp_tasks w"
  "next_chan (upd_res i f w) = next_chan w"
  "next_res (upd_res i f w) = next_res w"
  "res_store (upd_res i f w) j = (if j = i then f (res_store w i) else res_store w j)"
  by (simp_all add: upd_res_def)

lemma upd_R_simps:
  "R (upd_R g w) = g (R w)"
  "heap (upd_R g w) = heap w"
  "chans (upd_R g w) = chans w"
  "canceled (upd_R g w) = canceled w"
  "tcp_tasks (upd_R g w) = tcp_tasks w"
  "next_chan (upd_R g w) = next_chan w"
  "next_res (upd_R g w) = next_res w"
  "res_store (upd_R g w) = res_store w"
  by (simp_all add: upd_R_def)

lemma fail_request_simps:
  "R (fail_request req w) = R w"
  "res_store (fail_request req w) = res_store w"
  "canceled (fail_request req w) = canceled w"
  "tcp_tasks (fail_request req w) = tcp_tasks w"
  "next_chan (fail_request req w) = next_chan w"
  "next_res (fail_request req w) = next_res w"
  "chans (fail_request req w) c
     = (if c = Result req then chans w c @ [Some (Msg req)] else chans w c)"
  "heap (fail_request req w) p
     = (if p = Msg req then (heap w p)\<lparr>Rcode := RcodeNoResponse\<rparr> else heap w p)"
  by (simp_all add: fail_request_def release_def errNoResponse_def chan_send_def set_Rcode_def)

lemma fold_fail_request_frame:
  "R (fold fail_request reqs w) = R w"
  "res_store (fold fail_request reqs w) = res_store w"
  "canceled (fold fail_request reqs w) = canceled w"
  "tcp_tasks (fold fail_request reqs w) = tcp_tasks w"
  by (induction reqs arbitrary: w) (simp_all add: fail_request_simps)

lemma delivered_fail_request_same: "delivered_no_response req (fail_request req w)"
  by (simp add: delivered_no_response_def fail_request_simps)

lemma delivered_fail_request_mono:
  "delivered_no_response r w \<Longrightarrow> delivered_no_response r (fail_request req w)"
  by (auto simp add: delivered_no_response_def fail_request_simps)

lemma delivered_fold_mono:
  "delivered_no_response r w \<Longrightarrow> delivered_no_response r (fold fail_request reqs w)"
  by (induction reqs arbitrary: w) (simp_all add: delivered_fail_request_mono)

lemma delivered_fold_all:
  "r \<in> set reqs \<Longrightarrow> delivered_no_response r (fold fail_request reqs w)"
  by (induction reqs arbitrary: w)
     (auto simp add: delivered_fail_request_same delivered_fold_mono)

lemma delivered_upd_res [simp]:
  "delivered_no_response r (upd_res i f w) = delivered_no_response r w"
  by (simp add: delivered_no_response_def upd_res_simps)

lemma delivered_upd_R [simp]:
  "delivered_no_response r (upd_R g w) = delivered_no_response r w"
  by (simp add: delivered_no_response_def upd_R_simps)

lemma map_of_filter_key: "map_of (filter (\<lambda>(k, e). k \<noteq> key) es) key = None"
  by (induction es) auto

lemma collectStats_simps:
  "R (collectStats i m w) = R w"
  "heap (collectStats i m w) = heap w"
  "chans (collectStats i m w) = chans w"
  "canceled (collectStats i m w) = canceled w"
  "tcp_tasks (collectStats i m w) = tcp_tasks w"
  "res_store (collectStats i m w) j
     = (if j = i then (res_store w i)\<lparr>stats := stats (res_store w i) @ [Rcode (heap w m)]\<rparr>
        else res_store w j)"
  by (simp_all add: collectStats_def upd_res_simps)

lemma chan_send_simps:
  "R (chan_send c v w) = R w"
  "heap (chan_send c v w) = heap w"
  "res_store (chan_send c v w) = res_store w"
  "canceled (chan_send c v w) = canceled w"
  "tcp_tasks (chan_send c v w) = tcp_tasks w"
  "chans (chan_send c v w) c' = (if c' = c then chans w c @ [v] else chans w c')"
  by (simp_all add: chan_send_def)

lemma expire_request_simps:
  "R (expire_request i req w) = R w"
  "canceled (expire_request i req w) = canceled w"
  "tcp_tasks (expire_request i req w) = tcp_tasks w"
  "chans (expire_request i req w) c
     = (if c = Result req then chans w c @ [Some (Msg req)] else chans w c)"
  "heap (expire_request i req w) p
     = (if p = Msg req then (heap w p)\<lparr>Rcode := RcodeNoResponse\<rparr> else heap w p)"
  "res_store (expire_request i req w) j
     = (if j = i then (res_store w i)\<lparr>stats := stats (res_store w i) @ [RcodeNoResponse]\<rparr>
        else res_store w j)"
  by (simp_all add: expire_request_def release_def collectStats_simps errNoResponse_def
      chan_send_simps set_Rcode_def chan_send_def)



lemma fold_expire_frame:
  "R (fold (expire_request i) reqs w) = R w"
  "xchgs (res_store (fold (expire_request i) reqs w) j) = xchgs (res_store w j)"
  "res_done (res_store (fold (expire_request i) reqs w) j) = res_done (res_store w j)"
  "xchgQueue (res_store (fold (expire_request i) reqs w) j) = xchgQueue (res_store w j)"
  "tcp_tasks (fold (expire_request i) reqs w) = tcp_tasks w"
  by (induction reqs arbitrary: w) (simp_all add: expire_request_simps)



lemma sent_to_simps:
  "sent_to c [] = []"
  "sent_to c (r # rs) = (if Result r = c then Some (Msg r) # sent_to c rs else sent_to c rs)"
  "sent_to c (xs @ ys) = sent_to c xs @ sent_to c ys"
  by (simp_all add: sent_to_def)

lemma fold_fail_request_chans:
  "chans (fold fail_request reqs w) c = chans w c @ sent_to c reqs"
  by (induction reqs arbitrary: w) (simp_all add: sent_to_simps fail_request_simps)

lemma fold_expire_chans:
  "chans (fold (expire_request i) reqs w) c = chans w c @ sent_to c reqs"
  by (induction reqs arbitrary: w) (simp_all add: sent_to_simps expire_request_simps)

lemma drained_cong:
  "(\<And>j. j \<in> set rs \<Longrightarrow> st j = st' j) \<Longrightarrow> drained rs st = drained rs st'"
proof (induction rs arbitrary: st st')
  case Nil
  show ?case by simp
next
  case (Cons i rs)
  have "drained rs (st(i := stopped (st i))) = drained rs (st'(i := stopped (st' i)))"
    by (rule Cons.IH) (use Cons.prems in auto)
  then show ?case using Cons.prems by simp
qed

lemma drained_distinct:
  "distinct rs \<Longrightarrow> drained rs st = concat (map (\<lambda>i. held_running (st i)) rs)"
proof (induction rs arbitrary: st)
  case Nil
  show ?case by simp
next
  case (Cons i rs)
  have "drained rs (st(i := stopped (st i))) = drained rs st"
    by (rule drained_cong) (use Cons.prems in auto)
  then show ?case using Cons by simp
qed

lemma run_tcp_task_first:
  "run_tcp_task outcome (v\<lparr>tcp_tasks := (i, req) # ts\<rparr>) = tcpExchange i req outcome (v\<lparr>tcp_tasks := ts\<rparr>)"
  by (simp add: run_tcp_task_def)

lemma tcpExchange_simps:
  "tcp_tasks (tcpExchange i req outcome v) = tcp_tasks v"
  "chans (tcpExchange i req (Some m) v) c = (if c = Result req then chans v c @ [Some m] else chans v c)"
  "chans (tcpExchange i req None v) c = (if c = Result req then chans v c @ [Some (Msg req)] else chans v c)"
  "Rcode (heap (tcpExchange i req None v) (Msg req)) = RcodeNoResponse"
  by (simp_all add: tcpExchange_def release_def collectStats_simps chan_send_simps
      errNoResponse_def set_Rcode_def chan_send_def split: option.splits)

subsection \<open>Adding resolvers\<close>

lemma AddResolvers_zero_qps:
  "AddResolvers e 0 addrs w
     = Inr (Some ''failed to provide a maximum number of queries per second greater than zero'', w)"
  by (simp add: AddResolvers_def)

text \<open>C2. The claim asks that every rate \<open>qps \<le> 0\<close> is refused without any mutation. The
  code refuses the rate \<open>0\<close> only (\<open>AddResolvers_zero_qps\<close>): with the rate \<open>-1\<close> and one
  address that can be dialled, \<open>AddResolvers\<close> returns a \<open>nil\<close> error, adds the resolver to
  the pool, records the address and lowers the aggregate rate to \<open>-1\<close>.\<close>

theorem AddResolvers_negative_qps:
  "(case AddResolvers env_ok (- 1) [''8.8.8.8''] world0 of
      Inr (None, w') \<Rightarrow> pool (R w') = [0] \<and> rmap (R w') = {''8.8.8.8''} \<and> qps (R w') = - 1
        \<and> res_qps (res_store w' 0) = - 1 \<and> inc_dur (res_store w' 0) = - 1000000000
        \<and> address (res_store w' 0) = ''8.8.8.8:53''
    | _ \<Rightarrow> False)"
  by (simp add: AddResolvers_def initializeResolver_def env_ok_def world0_def NewResolvers_def
      upd_R_def AddResolver_def JoinHostPort_def Second_def signed_divide_int_def)

subsection \<open>Submission\<close>

text \<open>C3. When the pool is shut down or the caller's context is canceled, \<open>Query\<close> with a
  message that is not \<open>nil\<close> returns without a panic, sends that message on the channel
  with the no-response result code, and leaves the pool struct (so the ingress queue),
  every resolver struct (so every connection and every exchange table) and the started
  retries as they were.\<close>

theorem Query_shutdown_or_canceled:
  assumes "done_closed (R w) \<or> canceled w ctx"
  shows "\<exists>w'. Query ctx (Some p) ch w = Inr w'
       \<and> chans w' = (chans w)(ch := chans w ch @ [Some p])
       \<and> heap w' = (heap w)(p := (heap w p)\<lparr>Rcode := RcodeNoResponse\<rparr>)
       \<and> R w' = R w
       \<and> res_store w' = res_store w
       \<and> tcp_tasks w' = tcp_tasks w"
  using assms by (auto simp add: Query_def chan_send_def set_Rcode_def)

theorem Query_shutdown_or_canceled_witness:
  "(done_closed (R world_stopped) \<or> canceled world_stopped 0)
   \<and> (\<exists>w'. Query 0 (Some 0) 0 world_stopped = Inr w'
       \<and> chans w' = (chans world_stopped)(0 := chans world_stopped 0 @ [Some 0])
       \<and> heap w' = (heap world_stopped)(0 := (heap world_stopped 0)\<lparr>Rcode := RcodeNoResponse\<rparr>)
       \<and> R w' = R world_stopped
       \<and> res_store w' = res_store world_stopped
       \<and> tcp_tasks w' = tcp_tasks world_stopped)"
proof -
  have h: "done_closed (R world_stopped) \<or> canceled world_stopped 0"
    by (simp add: world_stopped_def)
  show ?thesis
    using h Query_shutdown_or_canceled [OF h, of 0 0] by simp
qed

text \<open>C9. On a running pool and with a live context, \<open>Query\<close> with a message whose
  question section is empty panics with an index out of range, and so do \<open>QueryChan\<close> and
  \<open>QueryBlocking\<close>, which call it: the submission API is not total.\<close>

theorem Query_empty_Question_panics:
  assumes "Question (heap w p) = []" and "\<not> done_closed (R w)" and "\<not> canceled w ctx"
  shows "Query ctx (Some p) ch w = Inl IndexOutOfRange
       \<and> QueryChan ctx (Some p) w = Inl IndexOutOfRange
       \<and> QueryBlocking ctx (Some p) others pick_ctx w = Inl IndexOutOfRange"
proof -
  have q: "Query ctx (Some p) c w' = Inl IndexOutOfRange"
    if "heap w' = heap w" "R w' = R w" "canceled w' = canceled w" for c w'
    using that assms by (simp add: Query_def)
  have "Query ctx (Some p) ch w = Inl IndexOutOfRange"
    by (rule q) simp_all
  moreover have qc: "QueryChan ctx (Some p) w = Inl IndexOutOfRange"
    by (simp add: QueryChan_def make_chan_def q)
  moreover have "QueryBlocking ctx (Some p) others pick_ctx w = Inl IndexOutOfRange"
    using assms(3) by (simp add: QueryBlocking_def qc)
  ultimately show ?thesis by simp
qed

theorem Query_empty_Question_panics_witness:
  "Question (heap world0 0) = [] \<and> \<not> done_closed (R world0) \<and> \<not> canceled world0 0
   \<and> Query 0 (Some 0) 0 world0 = Inl IndexOutOfRange
   \<and> QueryChan 0 (Some 0) world0 = Inl IndexOutOfRange
   \<and> QueryBlocking 0 (Some 0) id False world0 = Inl IndexOutOfRange"
proof -
  have h: "Question (heap world0 0) = []" "\<not> done_closed (R world0)" "\<not> canceled world0 0"
    by (simp_all add: world0_def empty_Msg_def NewResolvers_def)
  show ?thesis
    using h Query_empty_Question_panics [OF h, of 0 id False] by simp
qed

text \<open>C10. \<open>Query\<close> with a \<open>nil\<close> message sends \<open>nil\<close> on the channel and changes nothing
  else: no message gets a result code and nothing is queued. \<open>QueryBlocking\<close> with a \<open>nil\<close>
  message and a context that is live at its start and when its \<open>select\<close> fires, the
  other goroutines leaving its own channel alone, returns a \<open>nil\<close> response and the error
  ``query failed''.\<close>

theorem Query_nil:
  "Query ctx None c w = Inr (chan_send c None w)
   \<and> chans (chan_send c None w) c = chans w c @ [None]
   \<and> R (chan_send c None w) = R w
   \<and> heap (chan_send c None w) = heap w
   \<and> res_store (chan_send c None w) = res_store w
   \<and> tcp_tasks (chan_send c None w) = tcp_tasks w
   \<and> (\<not> canceled w ctx \<and> QueryChan ctx None w = Inr (ch, w1)
         \<and> \<not> canceled (others w1) ctx \<and> chans (others w1) ch = chans w1 ch
       \<longrightarrow> QueryBlocking ctx None others pick_ctx w = Inr (Some (None, Some ''query failed''), others w1))"
  by (auto simp add: Query_def chan_send_def QueryBlocking_def QueryChan_def make_chan_def
      QueryBlocking_select_def)

theorem Query_nil_witness:
  "Query 0 None 0 world0 = Inr (chan_send 0 None world0)
   \<and> \<not> canceled world0 0
   \<and> QueryChan 0 None world0 = Inr (0, chan_send 0 None (snd (make_chan world0)))
   \<and> \<not> canceled (id (chan_send 0 None (snd (make_chan world0)))) 0
   \<and> chans (id (chan_send 0 None (snd (make_chan world0)))) 0
       = chans (chan_send 0 None (snd (make_chan world0))) 0
   \<and> QueryBlocking 0 None id False world0
       = Inr (Some (None, Some ''query failed''), chan_send 0 None (snd (make_chan world0)))"
proof -
  have h: "\<not> canceled world0 0"
    "QueryChan 0 None world0 = Inr (0, chan_send 0 None (snd (make_chan world0)))"
    "\<not> canceled (id (chan_send 0 None (snd (make_chan world0)))) 0"
    by (simp_all add: world0_def QueryChan_def Query_def make_chan_def chan_send_def)
  show ?thesis
    using h Query_nil [of 0 0 world0 0 "chan_send 0 None (snd (make_chan world0))" id False]
    by simp
qed

text \<open>C7, as amended. \<open>QueryBlocking\<close> returns the original message and the error ``the
  context expired'' when the context has ended at its start, or has ended with no result
  on the channel when its \<open>select\<close> fires. When a result has arrived and the context is
  live, a \<open>nil\<close> response comes back with the error ``query failed'', and every other
  response, whatever it holds, comes back with a \<open>nil\<close> error. When the context has ended
  and a result has arrived, the runtime picks one of the two outcomes; while the context
  is live and no result has arrived, the call blocks. The two error texts differ.\<close>

theorem QueryBlocking_outcomes:
  "(canceled w ctx \<longrightarrow>
      QueryBlocking ctx msg others pick_ctx w = Inr (Some (msg, Some ''the context expired''), w))
   \<and> (\<not> canceled w ctx \<and> QueryChan ctx msg w = Inr (ch, w1) \<longrightarrow>
        (canceled (others w1) ctx \<and> chans (others w1) ch = [] \<longrightarrow>
           QueryBlocking ctx msg others pick_ctx w
             = Inr (Some (msg, Some ''the context expired''), others w1))
      \<and> (\<not> canceled (others w1) ctx \<and> chans (others w1) ch = None # rest \<longrightarrow>
           QueryBlocking ctx msg others pick_ctx w
             = Inr (Some (None, Some ''query failed''), others w1))
      \<and> (\<not> canceled (others w1) ctx \<and> chans (others w1) ch = Some m # rest \<longrightarrow>
           QueryBlocking ctx msg others pick_ctx w = Inr (Some (Some m, None), others w1))
      \<and> (canceled (others w1) ctx \<and> chans (others w1) ch = resp # rest \<longrightarrow>
           QueryBlocking ctx msg others pick_ctx w
             = Inr (Some (if pick_ctx then (msg, Some ''the context expired'')
                          else (resp, if resp = None then Some ''query failed'' else None)),
                    others w1))
      \<and> (\<not> canceled (others w1) ctx \<and> chans (others w1) ch = [] \<longrightarrow>
           QueryBlocking ctx msg others pick_ctx w = Inr (None, others w1)))
   \<and> ''the context expired'' \<noteq> ''query failed''"
  by (simp add: QueryBlocking_def QueryBlocking_select_def)

lemma QueryChan_world_one_question:
  "QueryChan 0 (Some 0) world_one_question
     = Inr (0, upd_R (\<lambda>r. r\<lparr>queue := [request0]\<rparr>) (snd (make_chan world_one_question)))"
  by (simp add: QueryChan_def Query_def make_chan_def world_one_question_def world0_def
      NewResolvers_def empty_Msg_def upd_R_def request0_def RemoveLastDot_def)

theorem QueryBlocking_outcomes_witness:
  "canceled (cancel_ctx 0 world0) 0
   \<and> QueryBlocking 0 (Some 0) id False (cancel_ctx 0 world0)
     = Inr (Some (Some 0, Some ''the context expired''), cancel_ctx 0 world0)
   \<and> \<not> canceled world_one_question 0
   \<and> QueryChan 0 (Some 0) world_one_question
     = Inr (0, upd_R (\<lambda>r. r\<lparr>queue := [request0]\<rparr>) (snd (make_chan world_one_question)))
   \<and> canceled (cancel_ctx 0 (upd_R (\<lambda>r. r\<lparr>queue := [request0]\<rparr>) (snd (make_chan world_one_question)))) 0
   \<and> chans (cancel_ctx 0 (upd_R (\<lambda>r. r\<lparr>queue := [request0]\<rparr>) (snd (make_chan world_one_question)))) 0 = []
   \<and> QueryBlocking 0 (Some 0) (cancel_ctx 0) False world_one_question
     = Inr (Some (Some 0, Some ''the context expired''),
            cancel_ctx 0 (upd_R (\<lambda>r. r\<lparr>queue := [request0]\<rparr>) (snd (make_chan world_one_question))))
   \<and> \<not> canceled world0 0
   \<and> QueryChan 0 None world0 = Inr (0, chan_send 0 None (snd (make_chan world0)))
   \<and> chans (id (chan_send 0 None (snd (make_chan world0)))) 0 = None # []
   \<and> QueryBlocking 0 None id False world0
     = Inr (Some (None, Some ''query failed''), chan_send 0 None (snd (make_chan world0)))
   \<and> \<not> canceled world_stopped 0
   \<and> QueryChan 0 (Some 0) world_stopped = Inr (0, world_after_stopped_query)
   \<and> chans (id world_after_stopped_query) 0 = Some 0 # []
   \<and> QueryBlocking 0 (Some 0) id False world_stopped
     = Inr (Some (Some 0, None), world_after_stopped_query)"
proof -
  have a: "canceled (cancel_ctx 0 world0) 0"
    by (simp add: cancel_ctx_def)
  have b: "\<not> canceled world_one_question 0"
    "canceled (cancel_ctx 0 (upd_R (\<lambda>r. r\<lparr>queue := [request0]\<rparr>) (snd (make_chan world_one_question)))) 0"
    "chans (cancel_ctx 0 (upd_R (\<lambda>r. r\<lparr>queue := [request0]\<rparr>) (snd (make_chan world_one_question)))) 0 = []"
    by (simp_all add: cancel_ctx_def upd_R_def make_chan_def world_one_question_def world0_def)
  have c: "\<not> canceled world0 0"
    "QueryChan 0 None world0 = Inr (0, chan_send 0 None (snd (make_chan world0)))"
    "\<not> canceled (id (chan_send 0 None (snd (make_chan world0)))) 0"
    "chans (id (chan_send 0 None (snd (make_chan world0)))) 0 = None # []"
    by (simp_all add: world0_def QueryChan_def Query_def make_chan_def chan_send_def)
  have d: "\<not> canceled world_stopped 0"
    "QueryChan 0 (Some 0) world_stopped = Inr (0, world_after_stopped_query)"
    "\<not> canceled (id world_after_stopped_query) 0"
    "chans (id world_after_stopped_query) 0 = Some 0 # []"
    by (simp_all add: world_stopped_def world0_def QueryChan_def Query_def make_chan_def
        chan_send_def set_Rcode_def world_after_stopped_query_def NewResolvers_def)
  show ?thesis
    using a b c d QueryChan_world_one_question
      QueryBlocking_outcomes [where w = "cancel_ctx 0 world0" and ctx = 0 and msg = "Some 0"
        and others = id and pick_ctx = False]
      QueryBlocking_outcomes [where w = world_one_question and ctx = 0 and msg = "Some 0"
        and ch = 0 and others = "cancel_ctx 0" and pick_ctx = False
        and ?w1.0 = "upd_R (\<lambda>r. r\<lparr>queue := [request0]\<rparr>) (snd (make_chan world_one_question))"]
      QueryBlocking_outcomes [where w = world0 and ctx = 0 and msg = None and ch = 0
        and ?w1.0 = "chan_send 0 None (snd (make_chan world0))" and others = id
        and pick_ctx = False and rest = "[]"]
      QueryBlocking_outcomes [where w = world_stopped and ctx = 0 and msg = "Some 0" and ch = 0
        and ?w1.0 = world_after_stopped_query and others = id and pick_ctx = False
        and rest = "[]" and m = 0]
    by simp
qed

text \<open>C7 as stated fails: on a pool that is shut down, \<open>QueryBlocking\<close> with an empty
  message gets that message back as the response, marked no-response and still empty, and
  returns it with a \<open>nil\<close> error, not with ``query failed''.\<close>

theorem QueryBlocking_empty_response_counterexample:
  "QueryBlocking 0 (Some 0) id False world_stopped
     = Inr (Some (Some 0, None), world_after_stopped_query)
   \<and> \<not> canceled world_after_stopped_query 0
   \<and> chans world_after_stopped_query 0 = [Some 0]
   \<and> msg_empty (heap world_after_stopped_query 0)
   \<and> Rcode (heap world_after_stopped_query 0) = RcodeNoResponse
   \<and> (None :: string option) \<noteq> Some ''query failed''"
  by (simp add: QueryBlocking_def QueryChan_def Query_def make_chan_def chan_send_def
      set_Rcode_def QueryBlocking_select_def world_stopped_def world0_def
      world_after_stopped_query_def msg_empty_def empty_Msg_def NewResolvers_def)

subsection \<open>Stopping\<close>

lemma resolver_stop_done:
  "res_done (res_store w i) \<Longrightarrow> resolver_stop i w = Inr w"
  by (simp add: resolver_stop_def)

lemma resolver_stop_running:
  assumes "\<not> res_done (res_store w i)"
  shows "\<exists>w'. resolver_stop i w = Inr w'
     \<and> R w' = R w
     \<and> res_store w' = (res_store w)(i := (res_store w i)
          \<lparr>res_done := True, xchgQueue := [], xchgs := (xchgs (res_store w i))\<lparr>entries := []\<rparr>\<rparr>)
     \<and> tcp_tasks w' = tcp_tasks w
     \<and> (\<forall>c. chans w' c = chans w c @ sent_to c (held (res_store w i)))
     \<and> (\<forall>r. delivered_no_response r w \<longrightarrow> delivered_no_response r w')
     \<and> (\<forall>r \<in> set (held (res_store w i)). delivered_no_response r w')"
proof -
  define q where "q = xchgQueue (res_store w i)"
  define es where "es = map (\<lambda>(k, e). e_req e) (entries (xchgs (res_store w i)))"
  define w1 where "w1 = upd_res i (\<lambda>r. r\<lparr>res_done := True\<rparr>) w"
  define w2 where "w2 = fold fail_request q (upd_res i (\<lambda>r. r\<lparr>xchgQueue := []\<rparr>) w1)"
  define w3 where "w3 = upd_res i (\<lambda>r. r\<lparr>xchgs := (xchgs (res_store w2 i))\<lparr>entries := []\<rparr>\<rparr>) w2"
  define w' where "w' = fold fail_request es w3"
  have st2: "res_store w2 = (res_store w)(i := (res_store w i)\<lparr>res_done := True, xchgQueue := []\<rparr>)"
    by (rule ext) (simp add: w2_def w1_def fold_fail_request_frame upd_res_simps)
  have run: "resolver_stop i w = Inr w'"
    using assms
    by (simp add: resolver_stop_def close_chan_def xchgs_removeAll_def Let_def w'_def w3_def
        w2_def w1_def q_def es_def upd_res_simps fold_fail_request_frame)
  have fr: "R w' = R w" "tcp_tasks w' = tcp_tasks w"
    by (simp_all add: w'_def w3_def w2_def w1_def fold_fail_request_frame upd_res_simps)
  have st: "res_store w' = (res_store w)(i := (res_store w i)
          \<lparr>res_done := True, xchgQueue := [], xchgs := (xchgs (res_store w i))\<lparr>entries := []\<rparr>\<rparr>)"
    by (rule ext) (simp add: w'_def w3_def fold_fail_request_frame upd_res_simps st2)
  have ch: "chans w' c = chans w c @ sent_to c (held (res_store w i))" for c
    by (simp add: w'_def w3_def w2_def w1_def fold_fail_request_chans upd_res_simps held_def
        sent_to_simps q_def es_def)
  have mono12: "delivered_no_response r w2" if "delivered_no_response r w" for r
    using that by (simp add: w2_def w1_def delivered_fold_mono)
  have mono: "delivered_no_response r w'" if "delivered_no_response r w2" for r
    using that by (simp add: w'_def w3_def delivered_fold_mono)
  have dq: "delivered_no_response r w2" if "r \<in> set q" for r
    using that by (simp add: w2_def delivered_fold_all)
  have de: "delivered_no_response r w'" if "r \<in> set es" for r
    using that by (simp add: w'_def delivered_fold_all)
  have "\<forall>r \<in> set (held (res_store w i)). delivered_no_response r w'"
    using dq de mono by (auto simp add: held_def q_def es_def)
  with run fr st ch mono mono12 show ?thesis by blast
qed

lemma stopped_simps:
  "res_done (stopped r)"
  "res_qps (stopped r) = res_qps r"
  "stopped (stopped r) = stopped r"
  "\<not> res_done r \<Longrightarrow> xchgQueue (stopped r) = [] \<and> entries (xchgs (stopped r)) = []"
  by (simp_all add: stopped_def)

lemma resolver_stop_total:
  "\<exists>w'. resolver_stop i w = Inr w'
     \<and> R w' = R w
     \<and> res_store w' = (res_store w)(i := stopped (res_store w i))
     \<and> (\<forall>c. chans w' c = chans w c @ sent_to c (held_running (res_store w i)))
     \<and> (\<forall>r. delivered_no_response r w \<longrightarrow> delivered_no_response r w')
     \<and> (\<not> res_done (res_store w i) \<longrightarrow>
          (\<forall>r \<in> set (held (res_store w i)). delivered_no_response r w'))"
proof (cases "res_done (res_store w i)")
  case True
  then show ?thesis
    by (simp add: resolver_stop_done stopped_def held_running_def sent_to_simps)
next
  case False
  from resolver_stop_running [OF False] show ?thesis
    using False by (auto simp add: stopped_def held_running_def)
qed

lemma Stop_loop_total:
  "\<exists>w'. Stop_loop rs w = Inr w'
     \<and> R w' = (R w)\<lparr>qps := (if maxSet (R w) then qps (R w)
                             else qps (R w) - sum_list (map (\<lambda>i. res_qps (res_store w i)) rs))\<rparr>
     \<and> (\<forall>i. res_store w' i = (if i \<in> set rs then stopped (res_store w i) else res_store w i))
     \<and> (\<forall>c. chans w' c = chans w c @ sent_to c (drained rs (res_store w)))
     \<and> (\<forall>r. delivered_no_response r w \<longrightarrow> delivered_no_response r w')
     \<and> (\<forall>i \<in> set rs. \<not> res_done (res_store w i) \<longrightarrow>
          (\<forall>r \<in> set (held (res_store w i)). delivered_no_response r w'))"
proof (induction rs arbitrary: w)
  case Nil
  show ?case by (simp add: sent_to_simps)
next
  case (Cons res rest)
  define w1 where "w1 = (if \<not> maxSet (R w)
      then upd_R (\<lambda>r. r\<lparr>qps := qps r - res_qps (res_store w res)\<rparr>) w else w)"
  have w1: "res_store w1 = res_store w" "maxSet (R w1) = maxSet (R w)"
    "R w1 = (R w)\<lparr>qps := (if maxSet (R w) then qps (R w) else qps (R w) - res_qps (res_store w res))\<rparr>"
    "\<And>r. delivered_no_response r w1 = delivered_no_response r w"
    "chans w1 = chans w"
    by (simp_all add: w1_def upd_R_simps)
  obtain w2 where w2: "resolver_stop res w1 = Inr w2" "R w2 = R w1"
    "res_store w2 = (res_store w1)(res := stopped (res_store w1 res))"
    "\<And>r. delivered_no_response r w1 \<Longrightarrow> delivered_no_response r w2"
    "\<not> res_done (res_store w1 res) \<Longrightarrow>
       (\<forall>r \<in> set (held (res_store w1 res)). delivered_no_response r w2)"
    "\<And>c. chans w2 c = chans w1 c @ sent_to c (held_running (res_store w1 res))"
    using resolver_stop_total [of res w1] by blast
  obtain w' where w': "Stop_loop rest w2 = Inr w'"
    "R w' = (R w2)\<lparr>qps := (if maxSet (R w2) then qps (R w2)
                             else qps (R w2) - sum_list (map (\<lambda>i. res_qps (res_store w2 i)) rest))\<rparr>"
    "\<And>i. res_store w' i = (if i \<in> set rest then stopped (res_store w2 i) else res_store w2 i)"
    "\<And>r. delivered_no_response r w2 \<Longrightarrow> delivered_no_response r w'"
    "\<And>i. i \<in> set rest \<Longrightarrow> \<not> res_done (res_store w2 i) \<Longrightarrow>
          (\<forall>r \<in> set (held (res_store w2 i)). delivered_no_response r w')"
    "\<And>c. chans w' c = chans w2 c @ sent_to c (drained rest (res_store w2))"
    using Cons.IH [of w2] by blast
  have run: "Stop_loop (res # rest) w = Inr w'"
    using w2(1) w'(1) by (simp add: w1_def Let_def)
  have qs: "map (\<lambda>i. res_qps (res_store w2 i)) rest = map (\<lambda>i. res_qps (res_store w i)) rest"
    by (simp add: w2(3) w1(1) stopped_simps)
  have Rw: "R w' = (R w)\<lparr>qps := (if maxSet (R w) then qps (R w)
                 else qps (R w) - sum_list (map (\<lambda>i. res_qps (res_store w i)) (res # rest)))\<rparr>"
    by (simp add: w'(2) w2(2) w1(3) qs)
  have st: "res_store w' i = (if i \<in> set (res # rest) then stopped (res_store w i) else res_store w i)" for i
    by (simp add: w'(3) w2(3) w1(1) stopped_simps)
  have ch: "chans w' c = chans w c @ sent_to c (drained (res # rest) (res_store w))" for c
    by (simp add: w'(6) w2(6) w2(3) w1(1) w1(5) sent_to_simps)
  have mono: "delivered_no_response r w'" if "delivered_no_response r w" for r
    using that w1(4) w2(4) w'(4) by blast
  have drained: "\<forall>r \<in> set (held (res_store w i)). delivered_no_response r w'"
    if "i \<in> set (res # rest)" "\<not> res_done (res_store w i)" for i
  proof (cases "i = res")
    case True
    then show ?thesis using w2(5) w'(4) that(2) by (simp add: w1(1))
  next
    case False
    then have "i \<in> set rest" "res_store w2 i = res_store w i"
      using that(1) by (simp_all add: w2(3) w1(1))
    then show ?thesis using w'(5) [of i] that(2) by simp
  qed
  from run Rw st ch mono drained show ?case by blast
qed

text \<open>C8. \<open>Stop\<close> never panics, and calling it on the world it returns changes nothing. On
  a pool that is shut down already it returns the world as it is. On a running pool it
  closes \<open>done\<close>, empties the selector, lowers the aggregate rate by the rate of every
  resolver when no maximum is set, and leaves every resolver of the pool (and the
  detector) stopped: its \<open>done\<close> closed, its queue and table empty, every request it held
  failed with no-response. The channels receive the messages of the requests held by the
  resolvers that were running, each once, and nothing else. The send step of a stopped
  resolver does nothing, and its receive loop returns and closes the connection.\<close>

theorem Stop_idempotent:
  "\<exists>w1. Stop w = Inr w1 \<and> Stop w1 = Inr w1 \<and> done_closed (R w1)
     \<and> (done_closed (R w) \<longrightarrow> w1 = w)
     \<and> (\<not> done_closed (R w) \<longrightarrow>
          pool (R w1) = []
        \<and> qps (R w1) = (if maxSet (R w) then qps (R w)
              else qps (R w) - sum_list (map (\<lambda>i. res_qps (res_store w i)) (all_with_detector (R w))))
        \<and> (\<forall>c. chans w1 c = chans w c @ sent_to c (drained (all_with_detector (R w)) (res_store w)))
        \<and> (\<forall>i \<in> set (all_with_detector (R w)).
              res_store w1 i = stopped (res_store w i)
            \<and> (\<not> res_done (res_store w i) \<longrightarrow>
                 (\<forall>r \<in> set (held (res_store w i)). delivered_no_response r w1))
            \<and> writeNextMsg i write_ok now_stamp now_next w1 = w1
            \<and> fst (responses_iter i err m w1) = Return
            \<and> conn_closed (conn (res_store (snd (responses_iter i err m w1)) i))))"
proof (cases "done_closed (R w)")
  case True
  then show ?thesis by (simp add: Stop_def)
next
  case False
  define w0 where "w0 = upd_R (\<lambda>r. r\<lparr>done_closed := True\<rparr>) w"
  have w0: "res_store w0 = res_store w" "all_with_detector (R w0) = all_with_detector (R w)"
    "maxSet (R w0) = maxSet (R w)" "qps (R w0) = qps (R w)" "done_closed (R w0)"
    "\<And>r. delivered_no_response r w0 = delivered_no_response r w" "chans w0 = chans w"
    by (simp_all add: w0_def upd_R_simps all_with_detector_def AllResolvers_def
        getDetectionResolver_def)
  obtain w2 where w2: "Stop_loop (all_with_detector (R w0)) w0 = Inr w2"
    "R w2 = (R w0)\<lparr>qps := (if maxSet (R w0) then qps (R w0)
        else qps (R w0) - sum_list (map (\<lambda>i. res_qps (res_store w0 i)) (all_with_detector (R w0))))\<rparr>"
    "\<And>i. res_store w2 i = (if i \<in> set (all_with_detector (R w0)) then stopped (res_store w0 i)
                              else res_store w0 i)"
    "\<And>r. delivered_no_response r w0 \<Longrightarrow> delivered_no_response r w2"
    "\<And>i. i \<in> set (all_with_detector (R w0)) \<Longrightarrow> \<not> res_done (res_store w0 i) \<Longrightarrow>
          (\<forall>r \<in> set (held (res_store w0 i)). delivered_no_response r w2)"
    "\<And>c. chans w2 c = chans w0 c @ sent_to c (drained (all_with_detector (R w0)) (res_store w0))"
    using Stop_loop_total [of "all_with_detector (R w0)" w0] by blast
  define w1 where "w1 = upd_R pool_Close w2"
  have run: "Stop w = Inr w1"
    using False w2(1) by (simp add: Stop_def close_chan_def w0_def w1_def Let_def)
  have d1: "done_closed (R w1)"
    by (simp add: w1_def upd_R_simps pool_Close_def w2(2) w0(5))
  then have again: "Stop w1 = Inr w1"
    by (simp add: Stop_def)
  have p: "pool (R w1) = []"
    by (simp add: w1_def upd_R_simps pool_Close_def)
  have q: "qps (R w1) = (if maxSet (R w) then qps (R w)
              else qps (R w) - sum_list (map (\<lambda>i. res_qps (res_store w i)) (all_with_detector (R w))))"
    by (simp add: w1_def upd_R_simps pool_Close_def w2(2) w0)
  have ch: "chans w1 c = chans w c @ sent_to c (drained (all_with_detector (R w)) (res_store w))" for c
    by (simp add: w1_def upd_R_simps w2(6) w0)
  have s: "res_store w1 i = stopped (res_store w i)" if "i \<in> set (all_with_detector (R w))" for i
    using that by (simp add: w1_def upd_R_simps w2(3) w0)
  have dl: "\<forall>r \<in> set (held (res_store w i)). delivered_no_response r w1"
    if "i \<in> set (all_with_detector (R w))" "\<not> res_done (res_store w i)" for i
    using that w2(5) [of i] by (simp add: w1_def w0)
  have lp: "writeNextMsg i write_ok now_stamp now_next w1 = w1
            \<and> fst (responses_iter i err m w1) = Return
            \<and> conn_closed (conn (res_store (snd (responses_iter i err m w1)) i))"
    if "i \<in> set (all_with_detector (R w))" for i
    using s [OF that]
    by (simp add: writeNextMsg_def responses_iter_def stopped_simps upd_res_simps)
  from run again d1 p q ch s dl lp False show ?thesis by blast
qed

theorem Stop_idempotent_witness:
  "\<not> done_closed (R world_busy)
   \<and> 0 \<in> set (all_with_detector (R world_busy))
   \<and> \<not> res_done (res_store world_busy 0)
   \<and> request0 \<in> set (held (res_store world_busy 0))
   \<and> request1 \<in> set (held (res_store world_busy 0))
   \<and> (\<exists>w1. Stop world_busy = Inr w1 \<and> Stop w1 = Inr w1 \<and> done_closed (R w1)
         \<and> pool (R w1) = [] \<and> qps (R w1) = 0
         \<and> chans w1 0 = [Some 0] \<and> chans w1 1 = [Some 1] \<and> chans w1 2 = []
         \<and> res_store w1 0 = stopped busy_resolver
         \<and> delivered_no_response request0 w1 \<and> delivered_no_response request1 w1
         \<and> writeNextMsg 0 True 0 0 w1 = w1
         \<and> fst (responses_iter 0 False None w1) = Return)"
proof -
  have h: "\<not> done_closed (R world_busy)" "0 \<in> set (all_with_detector (R world_busy))"
    "\<not> res_done (res_store world_busy 0)" "request0 \<in> set (held (res_store world_busy 0))"
    "request1 \<in> set (held (res_store world_busy 0))"
    "\<not> maxSet (R world_busy)" "qps (R world_busy) = 10"
    "all_with_detector (R world_busy) = [0]" "res_store world_busy 0 = busy_resolver"
    "res_qps busy_resolver = 10"
    by (simp_all add: world_busy_def world0_def NewResolvers_def all_with_detector_def
        AllResolvers_def getDetectionResolver_def busy_resolver_def zero_resolver_def held_def)
  have c: "chans world_busy = (\<lambda>c. [])"
    "held_running busy_resolver = [request0, request1]"
    "Result request0 = 0" "Result request1 = 1" "Msg request0 = 0" "Msg request1 = 1"
    by (simp_all add: world_busy_def world0_def held_running_def held_def busy_resolver_def
        zero_resolver_def request0_def request1_def)
  from Stop_idempotent [where w = world_busy and write_ok = True and now_stamp = 0
      and now_next = 0 and err = False and m = None]
  obtain w1 where w1: "Stop world_busy = Inr w1" "Stop w1 = Inr w1" "done_closed (R w1)"
    "pool (R w1) = []" "qps (R w1) = 0" "res_store w1 0 = stopped busy_resolver"
    "\<forall>c. chans w1 c = chans world_busy c @ sent_to c (drained [0] (res_store world_busy))"
    "\<forall>r \<in> set (held (res_store world_busy 0)). delivered_no_response r w1"
    "writeNextMsg 0 True 0 0 w1 = w1" "fst (responses_iter 0 False None w1) = Return"
    using h by auto
  have "chans w1 0 = [Some 0]" "chans w1 1 = [Some 1]" "chans w1 2 = []"
    using w1(7) by (simp_all add: c h sent_to_simps)
  with h w1 show ?thesis by blast
qed

subsection \<open>The send step\<close>

lemma stamp_absent:
  "map_of es k = None \<Longrightarrow>
   map (\<lambda>(k', e). if k' = k then (k', f e) else (k', e)) es = es"
  by (induction es) (auto split: if_splits)

lemma add_then_stamp:
  assumes "map_of (entries t) (xchgKey (ID req) (Name req)) = None"
  shows "xchgs_add req t = Some (t\<lparr>entries := entries t @
            [(xchgKey (ID req) (Name req), \<lparr>e_req = req, e_deadline = None\<rparr>)]\<rparr>)"
    and "xchgs_updateTimestamp (ID req) (Name req) now
           (t\<lparr>entries := entries t @ [(xchgKey (ID req) (Name req), \<lparr>e_req = req, e_deadline = None\<rparr>)]\<rparr>)
         = t\<lparr>entries := entries t @
             [(xchgKey (ID req) (Name req), \<lparr>e_req = req, e_deadline = Some (now + xm_timeout t)\<rparr>)]\<rparr>"
  using assms by (simp_all add: xchgs_add_def xchgs_updateTimestamp_def stamp_absent)

lemma add_collision:
  "map_of (entries t) (xchgKey (ID req) (Name req)) = Some e \<Longrightarrow> xchgs_add req t = None"
  by (simp add: xchgs_add_def)

text \<open>C5. For the request \<open>writeNextMsg\<close> pops from the queue of a running resolver: when
  its context is canceled it is failed with no-response and connection, table and send
  time stay as they were. Otherwise exactly one message, its own, is handed to the
  connection; when the write succeeds and the key is free, the table gets its entry with
  the deadline \<open>now + timeout\<close> and the next send time becomes \<open>now + inc\<close>, with nothing
  delivered; when the write fails or the key is taken, the table is left as it was and
  the request is failed with no-response.\<close>

theorem writeNextMsg_step:
  assumes "\<not> res_done (res_store w i)" and "xchgQueue (res_store w i) = req # rest"
  shows
    "(let w' = writeNextMsg i write_ok now_stamp now_next w;
          r = res_store w i; r' = res_store w' i; key = xchgKey (ID req) (Name req) in
      xchgQueue r' = rest
      \<and> (canceled w (Ctx req) \<longrightarrow>
            conn r' = conn r \<and> xchgs r' = xchgs r \<and> next_time r' = next_time r
          \<and> chans w' (Result req) = chans w (Result req) @ [Some (Msg req)]
          \<and> Rcode (heap w' (Msg req)) = RcodeNoResponse)
      \<and> (\<not> canceled w (Ctx req) \<longrightarrow>
            written (conn r') = written (conn r) @ [Msg req]
          \<and> (write_ok \<and> map_of (entries (xchgs r)) key = None \<longrightarrow>
                entries (xchgs r') = entries (xchgs r) @
                  [(key, \<lparr>e_req = req, e_deadline = Some (now_stamp + xm_timeout (xchgs r))\<rparr>)]
              \<and> next_time r' = now_next + inc_dur r
              \<and> chans w' = chans w \<and> heap w' = heap w)
          \<and> (\<not> write_ok \<or> map_of (entries (xchgs r)) key \<noteq> None \<longrightarrow>
                xchgs r' = xchgs r \<and> next_time r' = next_time r
              \<and> chans w' (Result req) = chans w (Result req) @ [Some (Msg req)]
              \<and> Rcode (heap w' (Msg req)) = RcodeNoResponse)))"
proof -
  let ?key = "xchgKey (ID req) (Name req)"
  let ?t = "xchgs (res_store w i)"
  show ?thesis
  proof (cases "canceled w (Ctx req)")
    case True
    with assms show ?thesis
      by (simp add: writeNextMsg_def Let_def upd_res_simps fail_request_simps)
  next
    case nc: False
    show ?thesis
    proof (cases "write_ok \<and> map_of (entries ?t) ?key = None")
      case True
      then have ok: write_ok and free: "map_of (entries ?t) ?key = None" by simp_all
      from assms nc ok show ?thesis
        by (simp add: writeNextMsg_def Let_def upd_res_simps add_then_stamp [OF free]
            conn_WriteMsg_def free)
    next
      case False
      show ?thesis
      proof (cases write_ok)
        case True
        with False obtain e where "map_of (entries ?t) ?key = Some e" by auto
        with assms nc True show ?thesis
          by (simp add: writeNextMsg_def Let_def upd_res_simps add_collision
              fail_request_simps conn_WriteMsg_def)
      next
        case False
        with assms nc show ?thesis
          by (simp add: writeNextMsg_def Let_def upd_res_simps fail_request_simps
              conn_WriteMsg_def)
      qed
    qed
  qed
qed

theorem writeNextMsg_step_witness:
  "\<not> res_done (res_store world_busy 0)
   \<and> xchgQueue (res_store world_busy 0) = request0 # []
   \<and> \<not> canceled world_busy (Ctx request0)
   \<and> map_of (entries (xchgs (res_store world_busy 0))) (xchgKey (ID request0) (Name request0)) = None
   \<and> written (conn (res_store (writeNextMsg 0 True 1000 1001 world_busy) 0)) = [Msg request0]
   \<and> entries (xchgs (res_store (writeNextMsg 0 True 1000 1001 world_busy) 0))
       = [((8, ''example.org''), \<lparr>e_req = request1, e_deadline = Some 5\<rparr>),
          ((7, ''example.com''), \<lparr>e_req = request0, e_deadline = Some (1000 + 2 * Second)\<rparr>)]
   \<and> next_time (res_store (writeNextMsg 0 True 1000 1001 world_busy) 0) = 1001 + 100 * Millisecond
   \<and> chans (writeNextMsg 0 True 1000 1001 world_busy) = chans world_busy
   \<and> written (conn (res_store (writeNextMsg 0 False 1000 1001 world_busy) 0)) = [Msg request0]
   \<and> xchgs (res_store (writeNextMsg 0 False 1000 1001 world_busy) 0) = xchgs (res_store world_busy 0)
   \<and> chans (writeNextMsg 0 False 1000 1001 world_busy) (Result request0) = [Some (Msg request0)]
   \<and> Rcode (heap (writeNextMsg 0 False 1000 1001 world_busy) (Msg request0)) = RcodeNoResponse"
proof -
  have h: "\<not> res_done (res_store world_busy 0)"
    "xchgQueue (res_store world_busy 0) = request0 # []"
    by (simp_all add: world_busy_def busy_resolver_def zero_resolver_def)
  have g: "\<not> canceled world_busy (Ctx request0)"
    "map_of (entries (xchgs (res_store world_busy 0))) (xchgKey (ID request0) (Name request0)) = None"
    "entries (xchgs (res_store world_busy 0))
       = [((8, ''example.org''), \<lparr>e_req = request1, e_deadline = Some 5\<rparr>)]"
    "xm_timeout (xchgs (res_store world_busy 0)) = 2 * Second"
    "inc_dur (res_store world_busy 0) = 100 * Millisecond"
    "written (conn (res_store world_busy 0)) = []"
    "chans world_busy (Result request0) = []"
    "xchgKey (ID request0) (Name request0) = (7, ''example.com'')"
    by (simp_all add: world_busy_def world0_def busy_resolver_def zero_resolver_def
        request0_def xchgKey_def RemoveLastDot_def)
  show ?thesis
    using h g
      writeNextMsg_step [OF h, of True 1000 1001]
      writeNextMsg_step [OF h, of False 1000 1001]
    by (simp add: Let_def)
qed

subsection \<open>The receive step\<close>

text \<open>C4. For a message with a question that matches an entry of the table of a running
  resolver by (id, question name), the name taken without its trailing dot, as the send
  step stored it, the entry leaves the table. When the message is marked truncated,
  nothing is delivered in this step and exactly one retry task for the request is
  started; that task, when it runs, leaves the task list and sends one value on the
  result channel: the message received over TCP, or the query with the no-response code.
  When the message is not truncated, it is sent on the result channel and its result
  code is added to the statistics. A read error, a \<open>nil\<close> message, a message without
  question and a message that matches no entry leave the world as it was.\<close>

theorem responses_iter_step:
  assumes "\<not> res_done (res_store w i)"
  shows
    "(\<not> err \<and> Question (heap w p) = q # qs
        \<and> map_of (entries (xchgs (res_store w i))) (xchgKey (MsgId (heap w p)) (QName q)) = Some e \<longrightarrow>
        (let key = xchgKey (MsgId (heap w p)) (QName q); req = e_req e;
             w1 = upd_res i (removed_from key) w in
           map_of (entries (xchgs (res_store w1 i))) key = None
         \<and> (Truncated (heap w p) \<longrightarrow>
               responses_iter i err (Some p) w = (Continue, w1\<lparr>tcp_tasks := tcp_tasks w @ [(i, req)]\<rparr>)
             \<and> chans (w1\<lparr>tcp_tasks := tcp_tasks w @ [(i, req)]\<rparr>) = chans w
             \<and> heap (w1\<lparr>tcp_tasks := tcp_tasks w @ [(i, req)]\<rparr>) = heap w
             \<and> stats (res_store (w1\<lparr>tcp_tasks := tcp_tasks w @ [(i, req)]\<rparr>) i) = stats (res_store w i)
             \<and> (\<forall>v ts outcome. run_tcp_task outcome (v\<lparr>tcp_tasks := (i, req) # ts\<rparr>)
                     = tcpExchange i req outcome (v\<lparr>tcp_tasks := ts\<rparr>))
             \<and> (\<forall>v outcome. tcp_tasks (tcpExchange i req outcome v) = tcp_tasks v)
             \<and> (\<forall>v m c. chans (tcpExchange i req (Some m) v) c
                     = (if c = Result req then chans v c @ [Some m] else chans v c))
             \<and> (\<forall>v c. chans (tcpExchange i req None v) c
                     = (if c = Result req then chans v c @ [Some (Msg req)] else chans v c))
             \<and> (\<forall>v. Rcode (heap (tcpExchange i req None v) (Msg req)) = RcodeNoResponse))
         \<and> (\<not> Truncated (heap w p) \<longrightarrow>
               responses_iter i err (Some p) w
                 = (Continue, collectStats i p (chan_send (Result req) (Some p) w1))
             \<and> (\<forall>c. chans (collectStats i p (chan_send (Result req) (Some p) w1)) c
                   = (if c = Result req then chans w c @ [Some p] else chans w c))
             \<and> stats (res_store (collectStats i p (chan_send (Result req) (Some p) w1)) i)
                 = stats (res_store w i) @ [Rcode (heap w p)]
             \<and> heap (collectStats i p (chan_send (Result req) (Some p) w1)) = heap w
             \<and> tcp_tasks (collectStats i p (chan_send (Result req) (Some p) w1)) = tcp_tasks w)))
   \<and> (err \<or> Question (heap w p) = []
        \<or> (\<exists>q qs. Question (heap w p) = q # qs
              \<and> map_of (entries (xchgs (res_store w i))) (xchgKey (MsgId (heap w p)) (QName q)) = None)
        \<longrightarrow> responses_iter i err (Some p) w = (Continue, w))
   \<and> responses_iter i err None w = (Continue, w)"
proof -
  have nomatch: "responses_iter i err (Some p) w = (Continue, w)"
    if "err \<or> Question (heap w p) = []
        \<or> (\<exists>q qs. Question (heap w p) = q # qs
              \<and> map_of (entries (xchgs (res_store w i))) (xchgKey (MsgId (heap w p)) (QName q)) = None)"
    using that assms by (auto simp add: responses_iter_def xchgs_remove_def)
  have nil: "responses_iter i err None w = (Continue, w)"
    using assms by (simp add: responses_iter_def)
  have match: "let key = xchgKey (MsgId (heap w p)) (QName q); req = e_req e;
             w1 = upd_res i (removed_from key) w in
           map_of (entries (xchgs (res_store w1 i))) key = None
         \<and> (Truncated (heap w p) \<longrightarrow>
               responses_iter i err (Some p) w = (Continue, w1\<lparr>tcp_tasks := tcp_tasks w @ [(i, req)]\<rparr>)
             \<and> chans (w1\<lparr>tcp_tasks := tcp_tasks w @ [(i, req)]\<rparr>) = chans w
             \<and> heap (w1\<lparr>tcp_tasks := tcp_tasks w @ [(i, req)]\<rparr>) = heap w
             \<and> stats (res_store (w1\<lparr>tcp_tasks := tcp_tasks w @ [(i, req)]\<rparr>) i) = stats (res_store w i))
         \<and> (\<not> Truncated (heap w p) \<longrightarrow>
               responses_iter i err (Some p) w
                 = (Continue, collectStats i p (chan_send (Result req) (Some p) w1))
             \<and> (\<forall>c. chans (collectStats i p (chan_send (Result req) (Some p) w1)) c
                   = (if c = Result req then chans w c @ [Some p] else chans w c))
             \<and> stats (res_store (collectStats i p (chan_send (Result req) (Some p) w1)) i)
                 = stats (res_store w i) @ [Rcode (heap w p)]
             \<and> heap (collectStats i p (chan_send (Result req) (Some p) w1)) = heap w
             \<and> tcp_tasks (collectStats i p (chan_send (Result req) (Some p) w1)) = tcp_tasks w)"
    if "\<not> err" "Question (heap w p) = q # qs"
      "map_of (entries (xchgs (res_store w i))) (xchgKey (MsgId (heap w p)) (QName q)) = Some e"
    using that assms
    by (simp add: responses_iter_def xchgs_remove_def Let_def upd_res_simps removed_from_def
        map_of_filter_key release_def collectStats_simps chan_send_simps upd_res_def)
  show ?thesis
    using nomatch nil match
    by (simp add: Let_def run_tcp_task_first tcpExchange_simps)
qed

lemma world_resp_facts:
  "\<not> res_done (res_store world_resp 0)"
  "Question (heap world_resp 2) = question1 # []"
  "Question (heap world_resp 3) = question1 # []"
  "xchgKey (MsgId (heap world_resp 2)) (QName question1) = (8, ''example.org'')"
  "xchgKey (MsgId (heap world_resp 3)) (QName question1) = (8, ''example.org'')"
  "map_of (entries (xchgs (res_store world_resp 0))) (8, ''example.org'') = Some entry1"
  "\<not> Truncated (heap world_resp 2)"
  "Truncated (heap world_resp 3)"
  "tcp_tasks world_resp = []"
  "chans world_resp (Result request1) = []"
  "e_req entry1 = request1"
  by (simp_all add: world_resp_def world_busy_def world0_def busy_resolver_def zero_resolver_def
      entry1_def resp_msg_def question1_def xchgKey_def RemoveLastDot_def)

text \<open>A query that is submitted, admitted and sent is in the table under the key that its
  answer has.\<close>

lemma submitted_query_is_sent:
  "AddResolvers env_ok 10 [''8.8.8.8''] world_one_question = Inr (None, world_pool)"
  "QueryChan 0 (Some 0) world_pool = Inr (0, world_submitted)"
  "enforceMaxQPS_iter False 0 world_submitted = Some (Continue, world_admitted)"
  "writeNextMsg 0 True 3 4 world_admitted = world_sent"
proof -
  show "AddResolvers env_ok 10 [''8.8.8.8''] world_one_question = Inr (None, world_pool)"
    by (simp add: AddResolvers_def initializeResolver_def env_ok_def world_one_question_def
        world0_def NewResolvers_def upd_R_def AddResolver_def JoinHostPort_def Second_def
        signed_divide_int_def world_pool_def fresh_resolver_def zero_resolver_def newXchgMgr_def
        Millisecond_def DefaultTimeout_def)
  show "QueryChan 0 (Some 0) world_pool = Inr (0, world_submitted)"
    by (simp add: QueryChan_def Query_def make_chan_def world_pool_def world_one_question_def
        world0_def NewResolvers_def empty_Msg_def upd_R_def request0_def RemoveLastDot_def
        world_submitted_def)
  show "enforceMaxQPS_iter False 0 world_submitted = Some (Continue, world_admitted)"
    by (simp add: enforceMaxQPS_iter_def world_submitted_def make_chan_def world_pool_def
        world_one_question_def world0_def NewResolvers_def upd_R_def GetResolver_def
        fresh_resolver_def zero_resolver_def resolver_query_def upd_res_def world_admitted_def)
  show "writeNextMsg 0 True 3 4 world_admitted = world_sent"
    by (simp add: writeNextMsg_def world_admitted_def world_submitted_def make_chan_def
        world_pool_def world_one_question_def world0_def NewResolvers_def upd_R_def
        fresh_resolver_def zero_resolver_def upd_res_def world_sent_def request0_def
        xchgs_add_def xchgs_updateTimestamp_def xchgKey_def RemoveLastDot_def newXchgMgr_def
        conn_WriteMsg_def entry0_def Let_def)
qed

lemma world_sent_facts:
  "\<not> res_done (res_store world_sent 0)"
  "Question (heap world_sent 1) = question0 # []"
  "xchgKey (MsgId (heap world_sent 1)) (QName question0) = (7, ''example.com'')"
  "map_of (entries (xchgs (res_store world_sent 0))) (7, ''example.com'') = Some entry0"
  "\<not> Truncated (heap world_sent 1)"
  "chans world_sent (Result request0) = []"
  "e_req entry0 = request0"
  "stats (res_store world_sent 0) = []" "Rcode (heap world_sent 1) = 0"
  by (simp_all add: world_sent_def world_admitted_def world_submitted_def make_chan_def
      world_pool_def world_one_question_def world0_def upd_R_def upd_res_def
      fresh_resolver_def zero_resolver_def entry0_def question0_def xchgKey_def
      RemoveLastDot_def empty_Msg_def request0_def)

theorem responses_iter_step_witness:
  "AddResolvers env_ok 10 [''8.8.8.8''] world_one_question = Inr (None, world_pool)
   \<and> QueryChan 0 (Some 0) world_pool = Inr (0, world_submitted)
   \<and> enforceMaxQPS_iter False 0 world_submitted = Some (Continue, world_admitted)
   \<and> writeNextMsg 0 True 3 4 world_admitted = world_sent
   \<and> \<not> res_done (res_store world_sent 0)
   \<and> Question (heap world_sent 1) = question0 # []
   \<and> QName question0 = ''example.com.''
   \<and> map_of (entries (xchgs (res_store world_sent 0)))
        (xchgKey (MsgId (heap world_sent 1)) (QName question0)) = Some entry0
   \<and> e_req entry0 = request0
   \<and> \<not> Truncated (heap world_sent 1)
   \<and> chans (snd (responses_iter 0 False (Some 1) world_sent)) (Result request0) = [Some 1]
   \<and> stats (res_store (snd (responses_iter 0 False (Some 1) world_sent)) 0) = [0]
   \<and> map_of (entries (xchgs (res_store (snd (responses_iter 0 False (Some 1) world_sent)) 0)))
        (7, ''example.com'') = None
   \<and> \<not> res_done (res_store world_resp 0)
   \<and> Question (heap world_resp 2) = question1 # []
   \<and> Question (heap world_resp 3) = question1 # []
   \<and> QName question1 = ''example.org.''
   \<and> map_of (entries (xchgs (res_store world_resp 0)))
        (xchgKey (MsgId (heap world_resp 2)) (QName question1)) = Some entry1
   \<and> map_of (entries (xchgs (res_store world_resp 0)))
        (xchgKey (MsgId (heap world_resp 3)) (QName question1)) = Some entry1
   \<and> \<not> Truncated (heap world_resp 2) \<and> Truncated (heap world_resp 3)
   \<and> responses_iter 0 False (Some 3) world_resp
       = (Continue, (upd_res 0 (removed_from (8, ''example.org'')) world_resp)\<lparr>tcp_tasks := [(0, request1)]\<rparr>)
   \<and> chans (snd (responses_iter 0 False (Some 3) world_resp)) = chans world_resp
   \<and> chans (snd (responses_iter 0 False (Some 2) world_resp)) (Result request1) = [Some 2]
   \<and> stats (res_store (snd (responses_iter 0 False (Some 2) world_resp)) 0) = [0]"
proof -
  have s: "stats (res_store world_resp 0) = []" "Rcode (heap world_resp 2) = 0"
    "QName question0 = ''example.com.''" "QName question1 = ''example.org.''"
    by (simp_all add: world_resp_def world_busy_def busy_resolver_def zero_resolver_def resp_msg_def
        question0_def question1_def)
  have f: "map_of (entries (xchgs (res_store (upd_res 0 (removed_from (7, ''example.com'')) world_sent) 0)))
        (7, ''example.com'') = None"
    by (simp add: upd_res_simps removed_from_def map_of_filter_key)
  show ?thesis
    using world_resp_facts s submitted_query_is_sent world_sent_facts
      responses_iter_step [OF world_sent_facts(1), of False 1 question0 "[]" entry0]
      responses_iter_step [OF world_resp_facts(1), of False 3 question1 "[]" entry1]
      responses_iter_step [OF world_resp_facts(1), of False 2 question1 "[]" entry1]
    by (simp add: Let_def collectStats_simps chan_send_simps upd_res_simps removed_from_def
        map_of_filter_key)
qed

subsection \<open>The expiry sweeper\<close>




subsection \<open>Deliveries over a run\<close>

lemma on_chan_simps:
  "on_chan c [] = 0"
  "on_chan c (r # rs) = (if Result r = c then Suc (on_chan c rs) else on_chan c rs)"
  "on_chan c (xs @ ys) = on_chan c xs + on_chan c ys"
  "length (sent_to c xs) = on_chan c xs"
  by (simp_all add: on_chan_def sent_to_def)

lemma in_flight_split:
  "i < next_res w \<Longrightarrow> in_flight c w = others_flight c i w + on_chan c (held (res_store w i))"
  by (simp add: in_flight_def others_flight_def sum.remove [of "{..<next_res w}" i])

lemma accounted_split:
  "i < next_res w \<Longrightarrow>
   accounted c w = length (chans w c) + others_flight c i w + on_chan c (held (res_store w i))"
  by (simp add: accounted_def in_flight_split)

lemma others_flight_cong:
  "queue (R w') = queue (R w) \<Longrightarrow> next_res w' = next_res w \<Longrightarrow> tcp_tasks w' = tcp_tasks w \<Longrightarrow>
   (\<And>j. j \<noteq> i \<Longrightarrow> held (res_store w' j) = held (res_store w j)) \<Longrightarrow>
   others_flight c i w' = others_flight c i w"
  by (simp add: others_flight_def)

lemma in_flight_cong:
  "queue (R w') = queue (R w) \<Longrightarrow> next_res w' = next_res w \<Longrightarrow> tcp_tasks w' = tcp_tasks w \<Longrightarrow>
   (\<And>j. held (res_store w' j) = held (res_store w j)) \<Longrightarrow>
   in_flight c w' = in_flight c w"
  by (simp add: in_flight_def)

lemma others_flight_upd_res [simp]:
  "others_flight c i (upd_res i f w) = others_flight c i w"
  by (rule others_flight_cong) (simp_all add: upd_res_simps)

lemma others_flight_fail_request [simp]:
  "others_flight c i (fail_request req w) = others_flight c i w"
  by (rule others_flight_cong) (simp_all add: fail_request_simps)

lemma in_flight_fail_request [simp]:
  "in_flight c (fail_request req w) = in_flight c w"
  by (rule in_flight_cong) (simp_all add: fail_request_simps)

lemma accounted_fail_request:
  "accounted c (fail_request req w) = accounted c w + (if Result req = c then 1 else 0)"
  by (simp add: accounted_def fail_request_simps)

lemma held_simps:
  "held (r\<lparr>xchgQueue := q\<rparr>) = q @ map (\<lambda>(k, e). e_req e) (entries (xchgs r))"
  "held (r\<lparr>xchgs := t\<rparr>) = xchgQueue r @ map (\<lambda>(k, e). e_req e) (entries t)"
  "held (r\<lparr>conn := cn\<rparr>) = held r"
  "held (r\<lparr>stats := s\<rparr>) = held r"
  "held (r\<lparr>res_done := d\<rparr>) = held r"
  "held (r\<lparr>next_time := n\<rparr>) = held r"
  by (simp_all add: held_def)

lemma Query_accounted:
  assumes "Query ctx msg ch w = Inr w'"
  shows "accounted c w' = accounted c w + (if c = ch then 1 else 0)"
    and "known_resolvers w \<Longrightarrow> known_resolvers w'"
proof -
  have "accounted c w' = accounted c w + (if c = ch then 1 else 0)
        \<and> (known_resolvers w \<longrightarrow> known_resolvers w')"
    using assms
    by (auto simp add: Query_def accounted_def in_flight_def chan_send_def set_Rcode_def
        upd_R_def on_chan_simps known_resolvers_def all_with_detector_def AllResolvers_def
        getDetectionResolver_def
        split: option.splits if_splits list.splits)
  then show "accounted c w' = accounted c w + (if c = ch then 1 else 0)"
    and "known_resolvers w \<Longrightarrow> known_resolvers w'" by simp_all
qed

lemma known_resolvers_cong:
  "R w' = R w \<Longrightarrow> next_res w' = next_res w \<Longrightarrow> tcp_tasks w' = tcp_tasks w \<Longrightarrow>
   known_resolvers w' = known_resolvers w"
  by (simp add: known_resolvers_def)

lemma known_upd_res [simp]: "known_resolvers (upd_res i f w) = known_resolvers w"
  by (rule known_resolvers_cong) (simp_all add: upd_res_simps)

lemma known_fail_request [simp]: "known_resolvers (fail_request req w) = known_resolvers w"
  by (rule known_resolvers_cong) (simp_all add: fail_request_simps)

lemma writeNextMsg_accounted:
  assumes "i < next_res w"
  shows "accounted c (writeNextMsg i write_ok now_stamp now_next w) = accounted c w
       \<and> next_res (writeNextMsg i write_ok now_stamp now_next w) = next_res w
       \<and> known_resolvers (writeNextMsg i write_ok now_stamp now_next w) = known_resolvers w"
proof (cases "res_done (res_store w i) \<or> xchgQueue (res_store w i) = []")
  case True
  then show ?thesis by (auto simp add: writeNextMsg_def)
next
  case False
  then obtain req rest where q: "xchgQueue (res_store w i) = req # rest" and nd: "\<not> res_done (res_store w i)"
    by (cases "xchgQueue (res_store w i)") auto
  note sp = accounted_split [of i]
  have base: "accounted c w = length (chans w c) + others_flight c i w
      + (on_chan c [req] + on_chan c rest
         + on_chan c (map (\<lambda>(k, e). e_req e) (entries (xchgs (res_store w i)))))"
    using assms q by (simp add: sp held_def on_chan_simps)
  show ?thesis
  proof (cases "canceled w (Ctx req)")
    case True
    with q nd assms base show ?thesis
      by (simp add: writeNextMsg_def Let_def upd_res_simps fail_request_simps sp held_simps
          on_chan_simps)
  next
    case nc: False
    show ?thesis
    proof (cases "write_ok \<and> map_of (entries (xchgs (res_store w i))) (xchgKey (ID req) (Name req)) = None")
      case True
      then have ok: write_ok
        and free: "map_of (entries (xchgs (res_store w i))) (xchgKey (ID req) (Name req)) = None"
        by simp_all
      from q nd nc ok assms base show ?thesis
        by (simp add: writeNextMsg_def Let_def upd_res_simps add_then_stamp [OF free] free sp
            held_simps on_chan_simps held_def)
    next
      case False
      then have "\<not> write_ok \<or> xchgs_add req (xchgs (res_store w i)) = None"
        by (auto simp add: xchgs_add_def split: option.splits)
      with q nd nc assms base show ?thesis
        by (auto simp add: writeNextMsg_def Let_def upd_res_simps fail_request_simps sp held_simps
            on_chan_simps)
    qed
  qed
qed

lemma on_chan_filter_key:
  "map_of es key = Some e \<Longrightarrow> distinct (map fst es) \<Longrightarrow>
   on_chan c (map (\<lambda>(k, e). e_req e) es)
     = on_chan c (map (\<lambda>(k, e). e_req e) (filter (\<lambda>(k, e). k \<noteq> key) es)) + on_chan c [e_req e]"
proof (induction es)
  case Nil
  then show ?case by simp
next
  case (Cons x es)
  obtain k' e' where x: "x = (k', e')" by (cases x)
  show ?case
  proof (cases "k' = key")
    case True
    with Cons.prems x have e: "e' = e" and nk: "key \<notin> fst ` set es" by auto
    have "filter (\<lambda>(k, e). k \<noteq> key) es = es"
      using nk by (induction es) (auto simp add: image_iff)
    with True x e show ?thesis by (simp add: on_chan_simps)
  next
    case False
    with Cons x show ?thesis by (simp add: on_chan_simps)
  qed
qed

lemma tables_ok_cong:
  "(\<And>i. entries (xchgs (res_store w' i)) = entries (xchgs (res_store w i))) \<Longrightarrow>
   tables_ok w' = tables_ok w"
  by (simp add: tables_ok_def)

lemma tables_ok_fail_request [simp]: "tables_ok (fail_request req w) = tables_ok w"
  by (rule tables_ok_cong) (simp add: fail_request_simps)

lemma tables_ok_upd_res:
  "tables_ok w \<Longrightarrow> distinct (map fst (entries (xchgs (f (res_store w i))))) \<Longrightarrow>
   tables_ok (upd_res i f w)"
  by (simp add: tables_ok_def upd_res_simps)

lemma tables_okD: "tables_ok w \<Longrightarrow> distinct (map fst (entries (xchgs (res_store w i))))"
  by (simp add: tables_ok_def)

lemma map_of_None_notin: "map_of es k = None \<Longrightarrow> k \<notin> fst ` set es"
  by (simp add: map_of_eq_None_iff)

lemma writeNextMsg_tables_ok:
  assumes "tables_ok w"
  shows "tables_ok (writeNextMsg i write_ok now_stamp now_next w)"
proof (cases "res_done (res_store w i) \<or> xchgQueue (res_store w i) = []")
  case True
  with assms show ?thesis by (auto simp add: writeNextMsg_def)
next
  case False
  then obtain req rest where q: "xchgQueue (res_store w i) = req # rest" and nd: "\<not> res_done (res_store w i)"
    by (cases "xchgQueue (res_store w i)") auto
  note d = tables_okD [OF assms, of i]
  have pop: "tables_ok (upd_res i (\<lambda>r. r\<lparr>xchgQueue := rest\<rparr>) w)"
    using assms by (simp add: tables_ok_def upd_res_simps)
  show ?thesis
  proof (cases "write_ok \<and> \<not> canceled w (Ctx req)
      \<and> map_of (entries (xchgs (res_store w i))) (xchgKey (ID req) (Name req)) = None")
    case True
    then have free: "map_of (entries (xchgs (res_store w i))) (xchgKey (ID req) (Name req)) = None"
      by simp
    from True q nd assms d map_of_None_notin [OF free] show ?thesis
      by (simp add: writeNextMsg_def Let_def upd_res_simps add_then_stamp [OF free] free
          tables_ok_def)
  next
    case False
    then have "canceled w (Ctx req) \<or> \<not> write_ok \<or> xchgs_add req (xchgs (res_store w i)) = None"
      by (auto simp add: xchgs_add_def split: option.splits)
    with q nd assms show ?thesis
      by (auto simp add: writeNextMsg_def Let_def upd_res_simps tables_ok_def fail_request_simps)
  qed
qed

lemma responses_iter_accounted:
  assumes "i < next_res w" and "tables_ok w"
  shows "accounted c (snd (responses_iter i err m w)) = accounted c w
       \<and> next_res (snd (responses_iter i err m w)) = next_res w
       \<and> (known_resolvers w \<longrightarrow> known_resolvers (snd (responses_iter i err m w)))
       \<and> tables_ok (snd (responses_iter i err m w))"
proof (cases "res_done (res_store w i)")
  case True
  have "accounted c (upd_res i (\<lambda>r. r\<lparr>conn := (conn r)\<lparr>conn_closed := True\<rparr>\<rparr>) w) = accounted c w"
    using assms(1) by (simp add: accounted_split [of i] upd_res_simps held_simps)
  moreover have "tables_ok (upd_res i (\<lambda>r. r\<lparr>conn := (conn r)\<lparr>conn_closed := True\<rparr>\<rparr>) w)"
    using assms(2) by (simp add: tables_ok_def upd_res_simps)
  ultimately show ?thesis using True by (simp add: responses_iter_def upd_res_simps)
next
  case nd: False
  show ?thesis
  proof (cases "\<exists>p q qs e. m = Some p \<and> \<not> err \<and> Question (heap w p) = q # qs
      \<and> map_of (entries (xchgs (res_store w i))) (xchgKey (MsgId (heap w p)) (QName q)) = Some e")
    case False
    then have "responses_iter i err m w = (Continue, w)"
      using nd
      by (auto simp add: responses_iter_def xchgs_remove_def split: option.splits list.splits)
    with assms show ?thesis by simp
  next
    case True
    then obtain p q qs e where m: "m = Some p" "\<not> err" "Question (heap w p) = q # qs"
      "map_of (entries (xchgs (res_store w i))) (xchgKey (MsgId (heap w p)) (QName q)) = Some e"
      by blast
    define key where "key = xchgKey (MsgId (heap w p)) (QName q)"
    define w1 where "w1 = upd_res i (removed_from key) w"
    note d = tables_okD [OF assms(2), of i]
    have cnt: "on_chan c (held (res_store w i))
        = on_chan c (held (res_store w1 i)) + on_chan c [e_req e]"
      using on_chan_filter_key [OF m(4) d, of c]
      by (simp add: w1_def upd_res_simps removed_from_def held_def on_chan_simps key_def)
    have w1: "next_res w1 = next_res w" "others_flight c i w1 = others_flight c i w"
      "chans w1 = chans w" "tcp_tasks w1 = tcp_tasks w" "R w1 = R w"
      by (simp_all add: w1_def upd_res_simps)
    have t1: "tables_ok w1"
      unfolding w1_def
      by (rule tables_ok_upd_res [OF assms(2)]) (use d in \<open>simp add: removed_from_def distinct_map_filter\<close>)
    have base: "accounted c w = length (chans w c) + others_flight c i w
        + on_chan c (held (res_store w1 i)) + on_chan c [e_req e]"
      using assms(1) cnt by (simp add: accounted_split [of i])
    show ?thesis
    proof (cases "Truncated (heap w p)")
      case True
      have r: "responses_iter i err m w = (Continue, w1\<lparr>tcp_tasks := tcp_tasks w1 @ [(i, e_req e)]\<rparr>)"
        using nd m True
        by (simp add: responses_iter_def xchgs_remove_def Let_def w1_def key_def removed_from_def
            upd_res_def)
      have a: "accounted c (w1\<lparr>tcp_tasks := tcp_tasks w1 @ [(i, e_req e)]\<rparr>) = accounted c w"
        using assms(1) w1 base
        by (simp add: accounted_def in_flight_def on_chan_simps in_flight_split [of i] others_flight_def
            sum.remove [of "{..<next_res w}" i])
      have k: "known_resolvers w \<Longrightarrow> known_resolvers (w1\<lparr>tcp_tasks := tcp_tasks w1 @ [(i, e_req e)]\<rparr>)"
        using assms(1) w1 by (auto simp add: known_resolvers_def)
      have t: "tables_ok (w1\<lparr>tcp_tasks := tcp_tasks w1 @ [(i, e_req e)]\<rparr>)"
        using t1 by (simp add: tables_ok_def)
      from a k t w1 show ?thesis by (simp add: r)
    next
      case False
      define w2 where "w2 = collectStats i p (chan_send (Result (e_req e)) (Some p) w1)"
      have r: "responses_iter i err m w = (Continue, w2)"
        using nd m False
        by (simp add: responses_iter_def xchgs_remove_def Let_def w1_def key_def removed_from_def
            upd_res_def w2_def release_def)
      have w2: "next_res w2 = next_res w" "R w2 = R w" "tcp_tasks w2 = tcp_tasks w"
        "others_flight c i w2 = others_flight c i w"
        "held (res_store w2 i) = held (res_store w1 i)"
        "chans w2 c = (if c = Result (e_req e) then chans w c @ [Some p] else chans w c)"
        "\<And>j. entries (xchgs (res_store w2 j)) = entries (xchgs (res_store w1 j))"
        using w1
        by (simp_all add: w2_def collectStats_def upd_res_simps chan_send_simps chan_send_def
            held_simps others_flight_def)
      have a: "accounted c w2 = accounted c w"
        using assms(1) w2 base by (simp add: accounted_split [of i] on_chan_simps)
      have k: "known_resolvers w2 = known_resolvers w"
        by (rule known_resolvers_cong) (simp_all add: w2)
      have t: "tables_ok w2"
        using t1 tables_ok_cong [of w2 w1] w2(7) by simp
      from a k t w2 show ?thesis by (simp add: r)
    qed
  qed
qed

lemma tcpExchange_accounted:
  "accounted c (tcpExchange i req outcome w) = accounted c w + (if Result req = c then 1 else 0)
   \<and> next_res (tcpExchange i req outcome w) = next_res w
   \<and> R (tcpExchange i req outcome w) = R w
   \<and> tcp_tasks (tcpExchange i req outcome w) = tcp_tasks w
   \<and> tables_ok (tcpExchange i req outcome w) = tables_ok w"
proof (cases outcome)
  case None
  then have e: "tcpExchange i req outcome w = fail_request req w"
    by (simp add: tcpExchange_def fail_request_def)
  show ?thesis by (simp add: e accounted_fail_request fail_request_simps)
next
  case (Some m)
  define w' where "w' = tcpExchange i req outcome w"
  have w': "next_res w' = next_res w" "R w' = R w" "tcp_tasks w' = tcp_tasks w"
    "\<And>j. held (res_store w' j) = held (res_store w j)"
    "\<And>j. entries (xchgs (res_store w' j)) = entries (xchgs (res_store w j))"
    "chans w' c = (if c = Result req then chans w c @ [Some m] else chans w c)"
    using Some
    by (simp_all add: w'_def tcpExchange_def release_def collectStats_def upd_res_simps
        chan_send_simps chan_send_def held_simps)
  have "in_flight c w' = in_flight c w"
    by (rule in_flight_cong) (simp_all add: w')
  moreover have "tables_ok w' = tables_ok w"
    by (rule tables_ok_cong) (simp add: w')
  ultimately show ?thesis
    using w' unfolding w'_def [symmetric] by (auto simp add: accounted_def)
qed

lemma run_tcp_task_accounted:
  "accounted c (run_tcp_task outcome w) = accounted c w
   \<and> next_res (run_tcp_task outcome w) = next_res w
   \<and> (known_resolvers w \<longrightarrow> known_resolvers (run_tcp_task outcome w))
   \<and> tables_ok (run_tcp_task outcome w) = tables_ok w"
proof (cases "tcp_tasks w")
  case Nil
  then show ?thesis by (simp add: run_tcp_task_def)
next
  case (Cons x ts)
  obtain i req where x: "x = (i, req)" by (cases x)
  define v where "v = w\<lparr>tcp_tasks := ts\<rparr>"
  have r: "run_tcp_task outcome w = tcpExchange i req outcome v"
    using Cons x by (simp add: run_tcp_task_def v_def)
  have v: "accounted c w = accounted c v + (if Result req = c then 1 else 0)"
    using Cons x by (simp add: accounted_def in_flight_def v_def on_chan_simps)
  have k: "known_resolvers w \<Longrightarrow> known_resolvers v"
    using Cons x by (simp add: known_resolvers_def v_def)
  have t: "tables_ok v = tables_ok w" "next_res v = next_res w"
    by (simp_all add: tables_ok_def v_def)
  have k': "known_resolvers (tcpExchange i req outcome v) = known_resolvers v"
    by (rule known_resolvers_cong) (simp_all add: tcpExchange_accounted)
  show ?thesis
    using tcpExchange_accounted [of c i req outcome v] v k t k' by (simp add: r)
qed

lemma expire_request_accounted:
  "length (chans (expire_request i req w) c) = length (chans w c) + (if Result req = c then 1 else 0)"
  "next_res (expire_request i req w) = next_res w"
  "held (res_store (expire_request i req w) j) = held (res_store w j)"
  by (auto simp add: expire_request_def release_def collectStats_def upd_res_simps errNoResponse_def
      chan_send_simps chan_send_def set_Rcode_def held_simps)

lemma fold_expire_more:
  "next_res (fold (expire_request i) reqs w) = next_res w"
  "held (res_store (fold (expire_request i) reqs w) j) = held (res_store w j)"
  by (induction reqs arbitrary: w) (simp_all add: expire_request_accounted)

lemma on_chan_partition:
  "on_chan c (map (\<lambda>(k, e). e_req e) es)
     = on_chan c (map (\<lambda>(k, e). e_req e) (filter (\<lambda>(k, e). \<not> P e) es))
       + on_chan c (map (\<lambda>(k, e). e_req e) (filter (\<lambda>(k, e). P e) es))"
  by (induction es) (auto simp add: on_chan_simps)

lemma timeouts_iter_accounted:
  assumes "i < next_res w" and "tables_ok w"
  shows "accounted c (snd (timeouts_iter i pick_done now w)) = accounted c w
       \<and> next_res (snd (timeouts_iter i pick_done now w)) = next_res w
       \<and> known_resolvers (snd (timeouts_iter i pick_done now w)) = known_resolvers w
       \<and> tables_ok (snd (timeouts_iter i pick_done now w))"
proof (cases "res_done (res_store w i) \<and> pick_done")
  case True
  with assms show ?thesis by (simp add: timeouts_iter_def)
next
  case False
  define reqs where "reqs = expired_requests now (xchgs (res_store w i))"
  define w1 where "w1 = upd_res i (\<lambda>r. r\<lparr>xchgs := (xchgs (res_store w i))
      \<lparr>entries := filter (\<lambda>(k, e). \<not> expired now e) (entries (xchgs (res_store w i)))\<rparr>\<rparr>) w"
  define w' where "w' = fold (expire_request i) reqs w1"
  have run: "timeouts_iter i pick_done now w = (Continue, w')"
    using False
    by (auto simp add: timeouts_iter_def xchgs_removeExpired_def Let_def w'_def w1_def reqs_def
        expired_requests_def)
  have n: "next_res w' = next_res w" "R w' = R w" "tcp_tasks w' = tcp_tasks w"
    by (simp_all add: w'_def w1_def fold_expire_more fold_expire_frame upd_res_simps)
  have h: "held (res_store w' j) = held (res_store w1 j)" for j
    by (simp add: w'_def fold_expire_more)
  have o: "others_flight c i w' = others_flight c i w"
    by (rule others_flight_cong) (simp_all add: n h w1_def upd_res_simps)
  have ch: "length (chans w' c) = length (chans w c) + on_chan c reqs"
    by (simp add: w'_def fold_expire_chans w1_def upd_res_simps on_chan_simps)
  have hw: "held (res_store w' i) = xchgQueue (res_store w i) @ map (\<lambda>(k, e). e_req e)
      (filter (\<lambda>(k, e). \<not> expired now e) (entries (xchgs (res_store w i))))"
    unfolding h by (simp add: w1_def upd_res_simps held_def)
  have cnt: "on_chan c (held (res_store w i)) = on_chan c (held (res_store w' i)) + on_chan c reqs"
    unfolding hw
    using on_chan_partition [of c "entries (xchgs (res_store w i))" "expired now"]
    by (simp add: held_def on_chan_simps reqs_def expired_requests_def)
  have a: "accounted c w' = accounted c w"
    using assms(1) n o ch cnt by (simp add: accounted_split [of i])
  have k: "known_resolvers w' = known_resolvers w"
    by (rule known_resolvers_cong) (simp_all add: n)
  have t: "tables_ok w'"
    using assms(2)
    by (simp add: tables_ok_def w'_def fold_expire_frame w1_def upd_res_simps distinct_map_filter)
  from a n k t show ?thesis by (simp add: run)
qed

lemma resolver_query_accounted:
  assumes "i < next_res w"
  shows "accounted c (resolver_query i req w) = accounted c w + (if Result req = c then 1 else 0)
       \<and> next_res (resolver_query i req w) = next_res w
       \<and> known_resolvers (resolver_query i req w) = known_resolvers w
       \<and> tables_ok (resolver_query i req w) = tables_ok w"
  using assms
  by (auto simp add: resolver_query_def accounted_fail_request fail_request_simps
      accounted_split [of i] upd_res_simps held_simps held_def on_chan_simps tables_ok_def)

lemma GetResolver_in_pool:
  "GetResolver choice w = Some res \<Longrightarrow> res \<in> set (pool (R w))"
proof -
  assume a: "GetResolver choice w = Some res"
  define act where "act = filter (\<lambda>i. \<not> res_done (res_store w i)) (pool (R w))"
  from a have ne: "act \<noteq> []" and r: "res = act ! (choice mod length act)"
    by (auto simp add: GetResolver_def Let_def act_def split: if_splits)
  then have "res \<in> set act" by simp
  then show ?thesis by (simp add: act_def)
qed

lemma enforceMaxQPS_iter_accounted:
  assumes "enforceMaxQPS_iter pick_done choice w = Some (l, w')" and "known_resolvers w"
  shows "accounted c w' = accounted c w \<and> next_res w' = next_res w
       \<and> known_resolvers w' \<and> tables_ok w' = tables_ok w"
proof (cases "queue (R w)")
  case Nil
  with assms show ?thesis by (auto simp add: enforceMaxQPS_iter_def split: if_splits)
next
  case (Cons req rest)
  show ?thesis
  proof (cases "done_closed (R w) \<and> pick_done")
    case True
    with assms Cons show ?thesis by (auto simp add: enforceMaxQPS_iter_def split: if_splits)
  next
    case False
    define w1 where "w1 = upd_R (\<lambda>r. r\<lparr>queue := rest\<rparr>) w"
    have w1: "accounted c w = accounted c w1 + (if Result req = c then 1 else 0)"
      "next_res w1 = next_res w" "known_resolvers w1" "tables_ok w1 = tables_ok w"
      "pool (R w1) = pool (R w)"
      using Cons assms(2)
      by (simp_all add: w1_def accounted_def in_flight_def upd_R_simps on_chan_simps
          known_resolvers_def all_with_detector_def AllResolvers_def getDetectionResolver_def
          tables_ok_def)
    show ?thesis
    proof (cases "GetResolver choice w1")
      case None
      with assms(1) Cons False have "w' = fail_request req w1"
        by (auto simp add: enforceMaxQPS_iter_def Let_def w1_def split: if_splits)
      with w1 show ?thesis by (simp add: accounted_fail_request fail_request_simps)
    next
      case (Some res)
      with assms(1) Cons False have e: "w' = resolver_query res req w1"
        by (auto simp add: enforceMaxQPS_iter_def Let_def w1_def split: if_splits)
      have "res \<in> set (pool (R w1))" by (rule GetResolver_in_pool [OF Some])
      then have "res < next_res w1"
        using w1(3) by (simp add: known_resolvers_def all_with_detector_def AllResolvers_def)
      from resolver_query_accounted [OF this, of c req] w1 show ?thesis by (simp add: e)
    qed
  qed
qed

lemma fold_fail_next_res: "next_res (fold fail_request reqs w) = next_res w"
  by (induction reqs arbitrary: w) (simp_all add: fail_request_simps)

lemma resolver_stop_accounted:
  assumes "i < next_res w" and "resolver_stop i w = Inr w'"
  shows "accounted c w' = accounted c w \<and> next_res w' = next_res w \<and> R w' = R w
       \<and> tcp_tasks w' = tcp_tasks w \<and> (tables_ok w \<longrightarrow> tables_ok w')"
proof (cases "res_done (res_store w i)")
  case True
  with assms show ?thesis by (simp add: resolver_stop_done)
next
  case False
  from resolver_stop_running [OF False] assms(2)
  have w': "R w' = R w"
    "res_store w' = (res_store w)(i := (res_store w i)
          \<lparr>res_done := True, xchgQueue := [], xchgs := (xchgs (res_store w i))\<lparr>entries := []\<rparr>\<rparr>)"
    "tcp_tasks w' = tcp_tasks w"
    "\<And>c. chans w' c = chans w c @ sent_to c (held (res_store w i))"
    by auto
  have n: "next_res w' = next_res w"
    using assms(2) False
    by (auto simp add: resolver_stop_def close_chan_def xchgs_removeAll_def Let_def
        fold_fail_next_res upd_res_simps)
  have o: "others_flight c i w' = others_flight c i w"
    by (rule others_flight_cong) (simp_all add: w' n)
  have a: "accounted c w' = accounted c w"
    using assms(1) n o by (simp add: accounted_split [of i] w' on_chan_simps held_def)
  have t: "tables_ok w \<Longrightarrow> tables_ok w'"
    by (simp add: tables_ok_def w')
  from a n w' t show ?thesis by simp
qed

lemma Stop_loop_accounted:
  assumes "\<forall>i \<in> set rs. i < next_res w" and "Stop_loop rs w = Inr w'"
  shows "accounted c w' = accounted c w \<and> next_res w' = next_res w
       \<and> queue (R w') = queue (R w) \<and> pool (R w') = pool (R w) \<and> detector (R w') = detector (R w)
       \<and> done_closed (R w') = done_closed (R w)
       \<and> tcp_tasks w' = tcp_tasks w \<and> (tables_ok w \<longrightarrow> tables_ok w')"
  using assms
proof (induction rs arbitrary: w)
  case Nil
  then show ?case by simp
next
  case (Cons res rest)
  define w1 where "w1 = (if \<not> maxSet (R w)
      then upd_R (\<lambda>r. r\<lparr>qps := qps r - res_qps (res_store w res)\<rparr>) w else w)"
  have w1: "accounted c w1 = accounted c w" "next_res w1 = next_res w"
    "queue (R w1) = queue (R w)" "pool (R w1) = pool (R w)" "detector (R w1) = detector (R w)"
    "done_closed (R w1) = done_closed (R w)" "tcp_tasks w1 = tcp_tasks w"
    "tables_ok w1 = tables_ok w"
    by (simp_all add: w1_def accounted_def in_flight_def upd_R_simps tables_ok_def)
  from Cons.prems(2) obtain w2 where w2: "resolver_stop res w1 = Inr w2" "Stop_loop rest w2 = Inr w'"
    by (auto simp add: w1_def Let_def split: sum.splits)
  have "res < next_res w1" using Cons.prems(1) w1(2) by simp
  note s = resolver_stop_accounted [OF this w2(1), of c]
  have "\<forall>i \<in> set rest. i < next_res w2" using Cons.prems(1) s w1(2) by simp
  from Cons.IH [OF this w2(2)] s w1 show ?case by simp
qed

lemma Stop_accounted:
  assumes "well_formed w" and "Stop w = Inr w'"
  shows "accounted c w' = accounted c w \<and> well_formed w'"
proof (cases "done_closed (R w)")
  case True
  with assms show ?thesis by (simp add: Stop_def)
next
  case False
  define w0 where "w0 = upd_R (\<lambda>r. r\<lparr>done_closed := True\<rparr>) w"
  have w0: "accounted c w0 = accounted c w" "next_res w0 = next_res w"
    "all_with_detector (R w0) = all_with_detector (R w)" "tcp_tasks w0 = tcp_tasks w"
    "tables_ok w0 = tables_ok w" "detector (R w0) = detector (R w)"
    by (simp_all add: w0_def accounted_def in_flight_def upd_R_simps tables_ok_def
        all_with_detector_def AllResolvers_def getDetectionResolver_def)
  from assms(2) False obtain w2 where w2: "Stop_loop (all_with_detector (R w0)) w0 = Inr w2"
    "w' = upd_R pool_Close w2"
    by (auto simp add: Stop_def close_chan_def Let_def w0_def split: sum.splits)
  have k: "\<forall>i \<in> set (all_with_detector (R w0)). i < next_res w0"
    using assms(1) w0 by (simp add: well_formed_def known_resolvers_def)
  note s = Stop_loop_accounted [OF k w2(1), of c]
  have "accounted c w' = accounted c w2"
    by (simp add: w2(2) accounted_def in_flight_def upd_R_simps pool_Close_def)
  then have a: "accounted c w' = accounted c w"
    using s w0(1) by simp
  have kn: "known_resolvers w'"
    using assms(1) s w0
    by (auto simp add: w2(2) well_formed_def known_resolvers_def upd_R_simps pool_Close_def
        all_with_detector_def AllResolvers_def getDetectionResolver_def split: option.splits)
  have t: "tables_ok w'"
    using assms(1) s w0 by (simp add: w2(2) well_formed_def tables_ok_def upd_R_simps)
  from a kn t show ?thesis by (simp add: well_formed_def)
qed

lemma sum_upto_new:
  "(\<Sum>i<Suc n. g (if i = n then x else f i)) = (\<Sum>i<n. g (f i)) + g x"
  by simp

lemma initializeResolver_accounted:
  assumes "well_formed w" and "initializeResolver env addr q w = Inr (r, w')"
  shows "accounted c w' = accounted c w \<and> R w' = R w \<and> tcp_tasks w' = tcp_tasks w
       \<and> tables_ok w' \<and> next_res w \<le> next_res w'
       \<and> (case r of None \<Rightarrow> True | Some res \<Rightarrow> res < next_res w')"
proof (cases r)
  case None
  with assms show ?thesis
    by (auto simp add: initializeResolver_def Let_def well_formed_def split: if_splits)
next
  case (Some res)
  with assms(2) have w': "res = next_res w"
    "w' = w\<lparr>res_store := (res_store w)(next_res w :=
                           \<lparr>res_done = False, xchgQueue = [], xchgs = newXchgMgr (timeout (R w)),
                            address = (if SplitHostPort_ok env addr then addr else JoinHostPort addr ''53''),
                            res_qps = q, inc_dur = Second sdiv q,
                            next_time = Now env, conn = \<lparr>written = [], conn_closed = False\<rparr>,
                            stats = []\<rparr>),
                        next_res := Suc (next_res w)\<rparr>"
    by (auto simp add: initializeResolver_def Let_def split: if_splits)
  have "accounted c w' = accounted c w"
    by (simp add: w'(2) accounted_def in_flight_def held_def newXchgMgr_def on_chan_simps)
  moreover have "tables_ok w'"
    using assms(1) by (simp add: w'(2) well_formed_def tables_ok_def newXchgMgr_def)
  ultimately show ?thesis using Some by (simp add: w')
qed

lemma AddResolvers_loop_accounted:
  assumes "well_formed w" and "AddResolvers_loop env q addrs w = Inr w'"
  shows "accounted c w' = accounted c w \<and> well_formed w'"
  using assms
proof (induction addrs arbitrary: w)
  case Nil
  then show ?case by simp
next
  case (Cons addr addrs)
  show ?case
  proof (cases "addr \<in> rmap (R w)")
    case True
    with Cons show ?thesis by simp
  next
    case False
    with Cons.prems(2) obtain r w1 where i: "initializeResolver env addr q w = Inr (r, w1)"
      by (auto split: sum.splits)
    note a = initializeResolver_accounted [OF Cons.prems(1) i, of c]
    have k1: "known_resolvers w1"
      using Cons.prems(1) a by (fastforce simp add: well_formed_def known_resolvers_def)
    show ?thesis
    proof (cases r)
      case None
      with Cons.prems(2) False i have "AddResolvers_loop env q addrs w1 = Inr w'" by simp
      from Cons.IH [OF _ this] a k1 show ?thesis by (simp add: well_formed_def)
    next
      case (Some res)
      define w2 where "w2 = upd_R (\<lambda>r. (AddResolver res (r\<lparr>rmap := insert addr (rmap r)\<rparr>))
                                 \<lparr>qps := (if \<not> maxSet r then qps r + q else qps r)\<rparr>) w1"
      from Cons.prems(2) False i Some have l: "AddResolvers_loop env q addrs w2 = Inr w'"
        by (simp add: w2_def)
      have a2: "accounted c w2 = accounted c w1"
        by (simp add: w2_def accounted_def in_flight_def upd_R_simps AddResolver_def)
      have k2: "known_resolvers w2"
        using k1 a Some
        by (auto simp add: w2_def known_resolvers_def upd_R_simps AddResolver_def
            all_with_detector_def AllResolvers_def getDetectionResolver_def split: option.splits)
      have t2: "tables_ok w2"
        using a by (simp add: w2_def tables_ok_def upd_R_simps)
      from Cons.IH [OF _ l] a a2 k2 t2 show ?thesis by (simp add: well_formed_def)
    qed
  qed
qed

lemma AddResolvers_accounted:
  assumes "well_formed w" and "AddResolvers env q addrs w = Inr (err, w')"
  shows "accounted c w' = accounted c w \<and> well_formed w'"
proof (cases "q = 0")
  case True
  with assms show ?thesis by (simp add: AddResolvers_def)
next
  case False
  with assms(2) have "AddResolvers_loop env q addrs w = Inr w'"
    by (auto simp add: AddResolvers_def split: sum.splits)
  from AddResolvers_loop_accounted [OF assms(1) this] show ?thesis .
qed

lemma updateResolverTimeouts_frame:
  "R (fold (\<lambda>res w'. if res_done (res_store w' res) then w'
                     else upd_res res (\<lambda>r. r\<lparr>xchgs := xchgs_setTimeout d (xchgs r)\<rparr>) w') rs w) = R w
   \<and> chans (fold (\<lambda>res w'. if res_done (res_store w' res) then w'
                     else upd_res res (\<lambda>r. r\<lparr>xchgs := xchgs_setTimeout d (xchgs r)\<rparr>) w') rs w) = chans w
   \<and> next_res (fold (\<lambda>res w'. if res_done (res_store w' res) then w'
                     else upd_res res (\<lambda>r. r\<lparr>xchgs := xchgs_setTimeout d (xchgs r)\<rparr>) w') rs w) = next_res w
   \<and> tcp_tasks (fold (\<lambda>res w'. if res_done (res_store w' res) then w'
                     else upd_res res (\<lambda>r. r\<lparr>xchgs := xchgs_setTimeout d (xchgs r)\<rparr>) w') rs w) = tcp_tasks w
   \<and> (\<forall>j. xchgQueue (res_store (fold (\<lambda>res w'. if res_done (res_store w' res) then w'
                     else upd_res res (\<lambda>r. r\<lparr>xchgs := xchgs_setTimeout d (xchgs r)\<rparr>) w') rs w) j)
          = xchgQueue (res_store w j)
        \<and> entries (xchgs (res_store (fold (\<lambda>res w'. if res_done (res_store w' res) then w'
                     else upd_res res (\<lambda>r. r\<lparr>xchgs := xchgs_setTimeout d (xchgs r)\<rparr>) w') rs w) j))
          = entries (xchgs (res_store w j)))"
  by (induction rs arbitrary: w) (simp_all add: upd_res_simps xchgs_setTimeout_def)

lemma SetTimeout_accounted:
  "accounted c (SetTimeout d w) = accounted c w
   \<and> known_resolvers (SetTimeout d w) = known_resolvers w
   \<and> tables_ok (SetTimeout d w) = tables_ok w"
proof -
  define w0 where "w0 = upd_R (\<lambda>r. r\<lparr>timeout := d\<rparr>) w"
  define w' where "w' = SetTimeout d w"
  note f = updateResolverTimeouts_frame [of "timeout (R w0)" "all_with_detector (R w0)" w0]
  have w0: "queue (R w0) = queue (R w)" "chans w0 = chans w" "next_res w0 = next_res w"
    "tcp_tasks w0 = tcp_tasks w" "res_store w0 = res_store w"
    "all_with_detector (R w0) = all_with_detector (R w)"
    by (simp_all add: w0_def upd_R_simps all_with_detector_def AllResolvers_def
        getDetectionResolver_def)
  have w': "R w' = R w0" "chans w' = chans w" "next_res w' = next_res w" "tcp_tasks w' = tcp_tasks w"
    "\<And>j. xchgQueue (res_store w' j) = xchgQueue (res_store w j)"
    "\<And>j. entries (xchgs (res_store w' j)) = entries (xchgs (res_store w j))"
    using f w0 by (simp_all add: w'_def SetTimeout_def updateResolverTimeouts_def w0_def [symmetric])
  have "in_flight c w' = in_flight c w"
    by (rule in_flight_cong) (simp_all add: w' w0 held_def)
  moreover have "known_resolvers w' = known_resolvers w"
    by (simp add: known_resolvers_def w' w0)
  moreover have "tables_ok w' = tables_ok w"
    by (rule tables_ok_cong) (simp add: w')
  ultimately show ?thesis
    unfolding w'_def [symmetric] by (simp add: accounted_def w')
qed

lemma internal_step_accounted:
  assumes "internal_step a w w'" and "well_formed w"
  shows "accounted c w' = accounted c w \<and> well_formed w'"
  using assms
proof (induction rule: internal_step.induct)
  case (admit pick_done choice w l w')
  from enforceMaxQPS_iter_accounted [OF admit(1), of c] admit(2) show ?case
    by (simp add: well_formed_def)
next
  case (send i w write_ok now_stamp now_next)
  from writeNextMsg_accounted [OF send(1), of c write_ok now_stamp now_next]
    writeNextMsg_tables_ok [of w i write_ok now_stamp now_next] send(2)
  show ?case by (simp add: well_formed_def)
next
  case (receive i w err m)
  from responses_iter_accounted [OF receive(1), of c err m] receive(2) show ?case
    by (simp add: well_formed_def)
next
  case (retry w outcome)
  from run_tcp_task_accounted [of c outcome w] retry show ?case
    by (simp add: well_formed_def)
next
  case (sweep i w pick_done now)
  from timeouts_iter_accounted [OF sweep(1), of c pick_done now] sweep(2) show ?case
    by (simp add: well_formed_def)
next
  case (stop w w')
  from Stop_accounted [OF stop(2) stop(1)] show ?case .
next
  case (add env q addrs w e w')
  from AddResolvers_accounted [OF add(2) add(1)] show ?case .
next
  case (set_timeout w d)
  from SetTimeout_accounted [of c d w] set_timeout show ?case
    by (simp add: well_formed_def)
next
  case (set_max_qps w q)
  then show ?case
    by (simp add: well_formed_def accounted_def in_flight_def known_resolvers_def tables_ok_def
        upd_R_simps SetMaxQPS_def all_with_detector_def AllResolvers_def getDetectionResolver_def)
next
  case (cancel w ctx)
  then show ?case
    by (simp add: well_formed_def accounted_def in_flight_def known_resolvers_def tables_ok_def
        cancel_ctx_def)
qed

lemma Query_well_formed:
  assumes "Query ctx msg ch w = Inr w'" and "well_formed w"
  shows "well_formed w'"
proof -
  have "tables_ok w'"
    using assms
    by (auto simp add: Query_def well_formed_def tables_ok_def chan_send_def set_Rcode_def
        upd_R_def split: option.splits if_splits list.splits)
  with Query_accounted(2) [OF assms(1)] assms(2) show ?thesis
    by (simp add: well_formed_def)
qed

lemma run_accounted:
  assumes "run live w subs w'" and "well_formed w"
  shows "accounted c w' = accounted c w + count_list subs c \<and> well_formed w'"
  using assms
proof (induction rule: run.induct)
  case (start live w)
  then show ?case by simp
next
  case (internal live w subs w1 a w2)
  with internal_step_accounted [OF internal(3), of c] show ?case by simp
next
  case (submit live w subs w1 ctx msg ch w2)
  with Query_accounted(1) [OF submit(2), of c] Query_well_formed [OF submit(2)]
  show ?case by simp
qed

lemma world0_accounted: "well_formed world0 \<and> accounted c world0 = 0"
  by (simp add: well_formed_def known_resolvers_def tables_ok_def accounted_def in_flight_def
      world0_def NewResolvers_def zero_resolver_def newXchgMgr_def all_with_detector_def
      AllResolvers_def getDetectionResolver_def held_def on_chan_simps)

lemma deliveries_accounted:
  assumes "run live world0 subs w"
  shows "length (chans w c) + in_flight c w = count_list subs c"
  using run_accounted [OF assms, of c] world0_accounted [of c]
  by (simp add: accounted_def)

lemma run_tables_distinct:
  assumes "run live world0 subs w"
  shows "distinct (map fst (entries (xchgs (res_store w i))))"
  using run_accounted [OF assms, of 0] world0_accounted [of 0]
  by (simp add: well_formed_def tables_ok_def)

text \<open>Only the admission loop takes requests out of the ingress queue.\<close>

lemma writeNextMsg_R: "R (writeNextMsg i write_ok now_stamp now_next w) = R w"
  by (simp add: writeNextMsg_def Let_def upd_res_simps fail_request_simps
      split: list.splits option.splits)

lemma responses_iter_R: "R (snd (responses_iter i err m w)) = R w"
  by (simp add: responses_iter_def Let_def upd_res_simps release_def collectStats_simps
      chan_send_simps split: list.splits option.splits prod.splits)

lemma timeouts_iter_R: "R (snd (timeouts_iter i pick_done now w)) = R w"
  by (simp add: timeouts_iter_def Let_def fold_expire_frame upd_res_simps split: prod.splits)

lemma run_tcp_task_R: "R (run_tcp_task outcome w) = R w"
  by (simp add: run_tcp_task_def tcpExchange_accounted split: list.splits prod.splits)

lemma AddResolvers_loop_queue:
  "AddResolvers_loop env q addrs w = Inr w' \<Longrightarrow> queue (R w') = queue (R w)"
proof (induction addrs arbitrary: w)
  case Nil
  then show ?case by simp
next
  case (Cons addr addrs)
  show ?case
  proof (cases "addr \<in> rmap (R w)")
    case True
    with Cons show ?thesis by simp
  next
    case False
    with Cons.prems obtain r w1 where i: "initializeResolver env addr q w = Inr (r, w1)"
      by (auto split: sum.splits)
    then have r1: "R w1 = R w"
      by (auto simp add: initializeResolver_def Let_def split: if_splits)
    show ?thesis
    proof (cases r)
      case None
      with Cons.prems False i have "AddResolvers_loop env q addrs w1 = Inr w'" by simp
      from Cons.IH [OF this] r1 show ?thesis by simp
    next
      case (Some res)
      with Cons.prems False i have "AddResolvers_loop env q addrs
          (upd_R (\<lambda>r. (AddResolver res (r\<lparr>rmap := insert addr (rmap r)\<rparr>))
                                 \<lparr>qps := (if \<not> maxSet r then qps r + q else qps r)\<rparr>) w1) = Inr w'"
        by simp
      from Cons.IH [OF this] r1 show ?thesis by (simp add: upd_R_simps AddResolver_def)
    qed
  qed
qed

lemma Stop_loop_queue: "Stop_loop rs w = Inr w' \<Longrightarrow> queue (R w') = queue (R w)"
proof (induction rs arbitrary: w)
  case Nil
  then show ?case by simp
next
  case (Cons res rest)
  define w1 where "w1 = (if \<not> maxSet (R w)
      then upd_R (\<lambda>r. r\<lparr>qps := qps r - res_qps (res_store w res)\<rparr>) w else w)"
  from Cons.prems obtain w2 where w2: "resolver_stop res w1 = Inr w2" "Stop_loop rest w2 = Inr w'"
    by (auto simp add: w1_def Let_def split: sum.splits)
  from resolver_stop_total [of res w1] w2(1) have "R w2 = R w1" by auto
  with Cons.IH [OF w2(2)] show ?case by (simp add: w1_def upd_R_simps)
qed

lemma internal_step_queue:
  assumes "internal_step a w w'" and "a \<noteq> Admission"
  shows "queue (R w') = queue (R w)"
  using assms
proof (induction rule: internal_step.induct)
  case (stop w w')
  show ?case
  proof (cases "done_closed (R w)")
    case True
    with stop show ?thesis by (simp add: Stop_def)
  next
    case False
    with stop(1) obtain w2 where
      "Stop_loop (all_with_detector (R (upd_R (\<lambda>r. r\<lparr>done_closed := True\<rparr>) w)))
         (upd_R (\<lambda>r. r\<lparr>done_closed := True\<rparr>) w) = Inr w2" "w' = upd_R pool_Close w2"
      by (auto simp add: Stop_def close_chan_def Let_def split: sum.splits)
    with Stop_loop_queue [OF this(1)] show ?thesis
      by (simp add: upd_R_simps pool_Close_def)
  qed
next
  case (add env q addrs w e w')
  then show ?case
    by (auto simp add: AddResolvers_def AddResolvers_loop_queue split: if_splits sum.splits)
next
  case (set_timeout w d)
  from updateResolverTimeouts_frame [of "timeout (R (upd_R (\<lambda>r. r\<lparr>timeout := d\<rparr>) w))"
      "all_with_detector (R (upd_R (\<lambda>r. r\<lparr>timeout := d\<rparr>) w))" "upd_R (\<lambda>r. r\<lparr>timeout := d\<rparr>) w"]
  show ?case by (simp add: SetTimeout_def updateResolverTimeouts_def upd_R_simps)
qed (simp_all add: writeNextMsg_R responses_iter_R timeouts_iter_R run_tcp_task_R upd_R_simps
    SetMaxQPS_def cancel_ctx_def)

lemma Query_queue:
  "Query ctx msg ch w = Inr w' \<Longrightarrow> \<exists>extra. queue (R w') = queue (R w) @ extra"
  by (auto simp add: Query_def chan_send_def set_Rcode_def upd_R_def
      split: option.splits if_splits list.splits)

lemma run_queue:
  assumes "run live w subs w'" and "Admission \<notin> live"
  shows "\<exists>extra. queue (R w') = queue (R w) @ extra"
  using assms
proof (induction rule: run.induct)
  case (start live w)
  show ?case by simp
next
  case (internal live w subs w1 a w2)
  then have "a \<noteq> Admission" by auto
  from internal_step_queue [OF internal(3) this] internal show ?case by simp
next
  case (submit live w subs w1 ctx msg ch w2)
  from Query_queue [OF submit(2)] submit show ?case by auto
qed

lemma never_delivered:
  assumes "run live w0 subs w" and "Admission \<notin> live" and "well_formed w0"
    and "accounted c w0 = on_chan c (queue (R w0))" and "c \<notin> set subs"
  shows "chans w c = []"
proof -
  from run_queue [OF assms(1,2)] obtain extra where "queue (R w) = queue (R w0) @ extra" ..
  then have "on_chan c (queue (R w0)) \<le> on_chan c (queue (R w))"
    by (simp add: on_chan_simps)
  also have "\<dots> \<le> in_flight c w" by (simp add: in_flight_def)
  finally have "accounted c w0 \<le> in_flight c w" using assms(4) by simp
  moreover have "accounted c w = accounted c w0"
    using run_accounted [OF assms(1,3), of c] assms(5) by (simp add: count_list_0_iff)
  ultimately have "length (chans w c) = 0"
    unfolding accounted_def by linarith
  then show ?thesis by simp
qed

text \<open>C1. The claim asks for exactly one delivery for every submitted query, also under
  pool shutdown. Over every run the queries submitted on a channel are accounted for,
  each one delivered once or still held (\<open>deliveries_accounted\<close>), so none is delivered
  twice. But \<open>Stop\<close> drains the queue and the table of every resolver and not the ingress
  queue: a query submitted with \<open>QueryChan\<close> and followed by \<open>Stop\<close> stays in the ingress
  queue with nothing delivered on its channel, and the admission loop, picking \<open>r.done\<close>,
  returns without touching it. From then on, whatever the other goroutines and the
  callers do, short of submitting on that channel again, nothing is ever delivered on
  it.\<close>

theorem shutdown_leaves_ingress_queue:
  "QueryChan 0 (Some 0) world_one_question = Inr (0, world_queued)
   \<and> Stop world_queued = Inr world_queued_stopped
   \<and> queue (R world_queued_stopped) = [request0]
   \<and> Result request0 = 0
   \<and> chans world_queued_stopped 0 = []
   \<and> enforceMaxQPS_iter True choice world_queued_stopped = Some (Return, world_queued_stopped)
   \<and> (\<forall>subs w. run (UNIV - {Admission}) world_queued_stopped subs w \<and> 0 \<notin> set subs
         \<longrightarrow> chans w 0 = [])"
proof -
  have a: "QueryChan 0 (Some 0) world_one_question = Inr (0, world_queued)"
    by (simp add: QueryChan_world_one_question world_queued_def)
  have r: "R world_queued = NewResolvers\<lparr>queue := [request0]\<rparr>"
    by (simp add: world_queued_def upd_R_def make_chan_def world_one_question_def world0_def)
  have b: "Stop world_queued = Inr world_queued_stopped"
    by (simp add: Stop_def r NewResolvers_def close_chan_def upd_R_simps all_with_detector_def
        AllResolvers_def getDetectionResolver_def world_queued_stopped_def pool_Close_def upd_R_def)
  have c: "R world_queued_stopped = NewResolvers\<lparr>queue := [request0], done_closed := True\<rparr>"
    by (simp add: world_queued_stopped_def upd_R_simps r)
  have d: "chans world_queued_stopped 0 = []" "tcp_tasks world_queued_stopped = []"
    "next_res world_queued_stopped = 0" "res_store world_queued_stopped = (\<lambda>i. zero_resolver)"
    by (simp_all add: world_queued_stopped_def world_queued_def upd_R_simps make_chan_def
        world_one_question_def world0_def)
  have e: "enforceMaxQPS_iter True choice world_queued_stopped = Some (Return, world_queued_stopped)"
    by (simp add: enforceMaxQPS_iter_def c)
  have wf: "well_formed world_queued_stopped"
    by (simp add: well_formed_def known_resolvers_def tables_ok_def c d NewResolvers_def
        all_with_detector_def AllResolvers_def getDetectionResolver_def zero_resolver_def
        newXchgMgr_def)
  have acc: "accounted 0 world_queued_stopped = on_chan 0 (queue (R world_queued_stopped))"
    by (simp add: accounted_def in_flight_def c d on_chan_simps)
  have "chans w 0 = []"
    if "run (UNIV - {Admission}) world_queued_stopped subs w" "0 \<notin> set subs" for subs w
    by (rule never_delivered [OF that(1) _ wf acc that(2)]) simp
  then have never: "\<forall>subs w. run (UNIV - {Admission}) world_queued_stopped subs w \<and> 0 \<notin> set subs
         \<longrightarrow> chans w 0 = []"
    by blast
  have f: "queue (R world_queued_stopped) = [request0]" "Result request0 = 0"
    by (simp_all add: c NewResolvers_def request0_def)
  from a b f d(1) e never show ?thesis by blast
qed

theorem shutdown_leaves_ingress_queue_witness:
  "run (UNIV - {Admission}) world_queued_stopped [1]
     (chan_send 1 (Some 1) (set_Rcode 1 RcodeNoResponse (cancel_ctx 5 world_queued_stopped)))
   \<and> 0 \<notin> set [1::nat]
   \<and> chans (chan_send 1 (Some 1) (set_Rcode 1 RcodeNoResponse (cancel_ctx 5 world_queued_stopped))) 0 = []
   \<and> chans (chan_send 1 (Some 1) (set_Rcode 1 RcodeNoResponse (cancel_ctx 5 world_queued_stopped))) 1
       = [Some 1]"
proof -
  have d: "done_closed (R (cancel_ctx 5 world_queued_stopped))"
    "chans (cancel_ctx 5 world_queued_stopped) 1 = []"
    by (simp_all add: cancel_ctx_def world_queued_stopped_def world_queued_def upd_R_def
        make_chan_def world_one_question_def world0_def)
  have q: "Query 0 (Some 1) 1 (cancel_ctx 5 world_queued_stopped)
      = Inr (chan_send 1 (Some 1) (set_Rcode 1 RcodeNoResponse (cancel_ctx 5 world_queued_stopped)))"
    using d(1) by (simp add: Query_def)
  have "run (UNIV - {Admission}) world_queued_stopped [] (cancel_ctx 5 world_queued_stopped)"
    by (rule run.internal [OF run.start, of Caller]) (simp_all add: internal_step.cancel)
  from run.submit [OF this q]
  have r: "run (UNIV - {Admission}) world_queued_stopped [1]
     (chan_send 1 (Some 1) (set_Rcode 1 RcodeNoResponse (cancel_ctx 5 world_queued_stopped)))" .
  have n: "0 \<notin> set [1::nat]" by simp
  have z: "chans (chan_send 1 (Some 1) (set_Rcode 1 RcodeNoResponse (cancel_ctx 5 world_queued_stopped))) 0 = []"
    using shutdown_leaves_ingress_queue [of 0] r n by blast
  have o: "chans (chan_send 1 (Some 1) (set_Rcode 1 RcodeNoResponse (cancel_ctx 5 world_queued_stopped))) 1
       = [Some 1]"
    using d(2) by (simp add: chan_send_def set_Rcode_def)
  from r n z o show ?thesis by blast
qed

subsection \<open>Expiry over a run\<close>



lemma forward_same_store:
  assumes "next_res w' = next_res w" and "set (queue (R w')) \<subseteq> set (queue (R w))"
    and "\<And>j. xchgQueue (res_store w' j) = xchgQueue (res_store w j)"
    and "\<And>j. entries (xchgs (res_store w' j)) = entries (xchgs (res_store w j))"
    and "\<And>j. res_done (res_store w' j) = res_done (res_store w j)"
    and "\<And>c. length (chans w c) \<le> length (chans w' c)"
  shows "forward w w'"
  using assms by (auto simp add: forward_def)

lemma forward_fail_request: "forward w (fail_request req w)"
  by (rule forward_same_store) (simp_all add: fail_request_simps)



































end
